theory Spec2Isabelle
  imports Complex_Main "HOL-Library.Word"
begin

section \<open>Data model: the participants table and the response log\<close>

text \<open>
  The handlers read and write the \<open>participants\<close> table of the hosted store. A row is a
  record with the columns the handlers name; nullable columns are options. The status
  columns are text in the store and are compared as strings by the code, so they stay
  strings here. Timestamps are the ISO strings produced by the clock of the caller.
\<close>

type_synonym timestamp = string
type_synonym bytes = "8 word list"

record participant =
  prolific_pid :: string
  study_id_t0 :: "string option"
  session_id_t0 :: "string option"
  condition :: "string option"
  t0_completed_at :: "timestamp option"
  t1_completed_at :: "timestamp option"
  audio_status :: "string option"
  audio_path :: "string option"
  audio_error :: "string option"
  audio_generated_at :: "timestamp option"
  qc_status :: string
  qc_checked_at :: "timestamp option"
  qc_notes :: "string option"
  qc_replaced_count :: int

type_synonym participants = "participant list"

text \<open>
  Column defaults of a freshly inserted row. The QC defaults are those of the migration
  \<open>add_qc_columns.sql\<close> (\<open>qc_status\<close> \<open>'pending'\<close>, \<open>qc_replaced_count\<close> 0, the rest
  null).

  Modelled from the spec: the statement creating the table is not among the sources;
  the data model gives audio status the initial value \<open>pending\<close> at record creation
  and every other column as nullable.
\<close>

definition new_participant :: "string \<Rightarrow> participant" where
  "new_participant pid =
     \<lparr> prolific_pid = pid, study_id_t0 = None, session_id_t0 = None, condition = None,
       t0_completed_at = None, t1_completed_at = None,
       audio_status = Some ''pending'', audio_path = None, audio_error = None,
       audio_generated_at = None,
       qc_status = ''pending'', qc_checked_at = None, qc_notes = None,
       qc_replaced_count = 0 \<rparr>"

text \<open>
  Store operations. \<open>update(fields).eq(...)\<close> rewrites the named columns of every row
  that matches and leaves the other rows as they are; \<open>upsert(fields, onConflict: key)\<close>
  rewrites the named columns of the row with that key when there is one and inserts a
  row with the defaults and the named columns otherwise; \<open>select().eq(key).single()\<close>
  answers with the one matching row.
\<close>

definition db_update ::
  "(participant \<Rightarrow> bool) \<Rightarrow> (participant \<Rightarrow> participant) \<Rightarrow> participants \<Rightarrow> participants" where
  "db_update sel cols tbl = map (\<lambda>r. if sel r then cols r else r) tbl"

definition has_pid :: "string \<Rightarrow> participant \<Rightarrow> bool" where
  "has_pid pid r = (prolific_pid r = pid)"

definition db_upsert ::
  "string \<Rightarrow> (participant \<Rightarrow> participant) \<Rightarrow> participants \<Rightarrow> participants" where
  "db_upsert pid cols tbl =
     (if list_ex (has_pid pid) tbl then db_update (has_pid pid) cols tbl
      else tbl @ [cols (new_participant pid)])"

definition db_single :: "string \<Rightarrow> participants \<Rightarrow> participant option" where
  "db_single pid tbl = (case filter (has_pid pid) tbl of [r] \<Rightarrow> Some r | _ \<Rightarrow> None)"

text \<open>
  A thrown value is an \<open>Error\<close> object with its message, or something else. The
  \<open>catch\<close> blocks that report a message read the message of the former and say
  \<open>'Unknown error'\<close> for the latter.
\<close>

datatype thrown = JsError string | NotAnError

definition message_of :: "thrown \<Rightarrow> string" where
  "message_of e = (case e of JsError m \<Rightarrow> m | NotAnError \<Rightarrow> ''Unknown error'')"

section \<open>POST /api/t0/submit\<close>

text \<open>
  A member of a parsed JSON body is absent, null or a value. \<open>!x\<close> in the source is
  true for an absent, null or empty string.
\<close>

datatype 'a field = Undefined | JNull | Given 'a

definition falsy :: "string field \<Rightarrow> bool" where
  "falsy f = (case f of Given s \<Rightarrow> s = [] | _ \<Rightarrow> True)"

definition str_of :: "string field \<Rightarrow> string" where
  "str_of f = (case f of Given s \<Rightarrow> s | _ \<Rightarrow> [])"

record t0_body =
  t0_prolific_pid :: "string field"
  t0_study_id :: "string field"
  t0_session_id :: "string field"
  t0_payload :: "(string \<times> string) list option"

datatype t0_response =
    T0_BadRequest string
  | T0_DatabaseError string
  | T0_InvalidBody
  | T0_Success string "string list"

text \<open>
  The object handed to \<open>upsert\<close>. A member whose value is \<open>undefined\<close> is dropped when
  the object is serialised, so that column is not named; a null member writes null.
  The condition is the literal \<open>'low'\<close>.
\<close>

definition put_field :: "string field \<Rightarrow> string option \<Rightarrow> string option" where
  "put_field f old = (case f of Undefined \<Rightarrow> old | JNull \<Rightarrow> None | Given s \<Rightarrow> Some s)"

definition t0_fields :: "t0_body \<Rightarrow> timestamp \<Rightarrow> participant \<Rightarrow> participant" where
  "t0_fields body now r =
     r\<lparr> study_id_t0 := put_field (t0_study_id body) (study_id_t0 r),
        session_id_t0 := put_field (t0_session_id body) (session_id_t0 r),
        condition := Some ''low'',
        t0_completed_at := Some now \<rparr>"

text \<open>
  The handler. The request is \<open>None\<close> when its body is not JSON (the \<open>catch\<close> branch);
  \<open>dberr\<close> is the error the store answers the upsert with, if any, in which case the
  table is as before.
\<close>

definition POST_t0 ::
  "t0_body option \<Rightarrow> string option \<Rightarrow> timestamp \<Rightarrow> participants \<Rightarrow> t0_response \<times> participants" where
  "POST_t0 req dberr now tbl =
     (case req of
        None \<Rightarrow> (T0_InvalidBody, tbl)
      | Some body \<Rightarrow>
          if falsy (t0_prolific_pid body) then
            (T0_BadRequest ''Missing required field: prolific_pid'', tbl)
          else if t0_payload body = None then
            (T0_BadRequest ''Missing required field: t0_payload'', tbl)
          else
            (case dberr of
               Some msg \<Rightarrow> (T0_DatabaseError msg, tbl)
             | None \<Rightarrow>
                 (T0_Success (str_of (t0_prolific_pid body)) (map fst (the (t0_payload body))),
                  db_upsert (str_of (t0_prolific_pid body)) (t0_fields body now) tbl)))"

section \<open>GET /api/t1/get-audio\<close>

text \<open>
  The JSON the endpoint answers with, together with the HTTP status. Members that an
  answer does not carry are \<open>None\<close>. The columns read from the row are those of the
  \<open>select\<close> list: the identifier, the condition and the four audio columns.
\<close>

record audio_response =
  http_status :: nat
  resp_ok :: bool
  resp_found :: "bool option"
  resp_status :: "string option"
  resp_prolific_pid :: "string option"
  resp_condition :: "string option"
  resp_audio_path :: "string option"
  resp_audio_url :: "string option"
  resp_audio_error :: "string option"
  resp_audio_generated_at :: "timestamp option"
  resp_error :: "string option"

definition no_members :: audio_response where
  "no_members =
     \<lparr> http_status = 200, resp_ok = True, resp_found = None, resp_status = None,
       resp_prolific_pid = None, resp_condition = None, resp_audio_path = None,
       resp_audio_url = None, resp_audio_error = None, resp_audio_generated_at = None,
       resp_error = None \<rparr>"

text \<open>A string-or-null is truthy when it is a non-empty string.\<close>

definition truthy :: "string option \<Rightarrow> bool" where
  "truthy s = (case s of None \<Rightarrow> False | Some t \<Rightarrow> t \<noteq> [])"

text \<open>
  The handler. \<open>pid\<close> is the query parameter (\<open>None\<close> when absent); \<open>dberr\<close> is an error
  of the store other than "no rows"; \<open>sign path ttl\<close> is the blob store's answer to
  \<open>createSignedUrl\<close>, \<open>None\<close> when it answers with an error. The signed URL is asked for
  when the audio status is \<open>'generated'\<close> and the path is truthy; the QC columns are not
  read.
\<close>

definition GET_audio ::
  "string option \<Rightarrow> string option \<Rightarrow> (string \<Rightarrow> nat \<Rightarrow> string option) \<Rightarrow> participants
     \<Rightarrow> audio_response" where
  "GET_audio pid dberr sign tbl =
     (if \<not> truthy pid then
        no_members\<lparr> http_status := 400, resp_ok := False,
                    resp_error := Some ''Missing prolific_pid'' \<rparr>
      else
        (case dberr of
           Some msg \<Rightarrow> no_members\<lparr> http_status := 500, resp_ok := False, resp_error := Some msg \<rparr>
         | None \<Rightarrow>
             (case db_single (the pid) tbl of
                None \<Rightarrow> no_members\<lparr> resp_found := Some False, resp_status := Some ''not_found'' \<rparr>
              | Some participant \<Rightarrow>
                  let audioUrl =
                        (if audio_status participant = Some ''generated''
                            \<and> truthy (audio_path participant)
                         then sign (the (audio_path participant)) 600
                         else None)
                  in no_members\<lparr> resp_found := Some True,
                                 resp_prolific_pid := Some (prolific_pid participant),
                                 resp_condition := condition participant,
                                 resp_status := audio_status participant,
                                 resp_audio_path := audio_path participant,
                                 resp_audio_url := audioUrl,
                                 resp_audio_error := audio_error participant,
                                 resp_audio_generated_at := audio_generated_at participant \<rparr>)))"

text \<open>
  The rule of the specification for when audio may be served, written from its words,
  to compare the endpoint with.
\<close>

definition spec_servable :: "participant \<Rightarrow> bool" where
  "spec_servable r =
     (audio_status r = Some ''generated''
        \<and> (condition r \<noteq> Some ''high'' \<or> qc_status r = ''approved''))"

section \<open>POST /api/admin/qc/approve\<close>

record qc_body =
  qc_prolific_pid :: "string field"
  qc_notes_in :: "string field"

datatype qc_response = QC_BadRequest string | QC_ServerError string | QC_Ok

definition notes_or_null :: "string field \<Rightarrow> string option" where
  "notes_or_null f = (if falsy f then None else Some (str_of f))"

text \<open>
  The handler. The request is the parsed body, or what reading the body throws; \<open>dberr\<close>
  is the error the store answers the update with, if any.
\<close>

definition POST_approve ::
  "thrown + qc_body \<Rightarrow> string option \<Rightarrow> timestamp \<Rightarrow> participants \<Rightarrow> qc_response \<times> participants" where
  "POST_approve req dberr now tbl =
     (case req of
        Inl err \<Rightarrow> (QC_ServerError (message_of err), tbl)
      | Inr body \<Rightarrow>
          if falsy (qc_prolific_pid body) then (QC_BadRequest ''Missing prolific_pid'', tbl)
          else
            (case dberr of
               Some msg \<Rightarrow> (QC_ServerError msg, tbl)
             | None \<Rightarrow>
                 (QC_Ok,
                  db_update (has_pid (str_of (qc_prolific_pid body)))
                    (\<lambda>r. r\<lparr> qc_status := ''approved'', qc_checked_at := Some now,
                             qc_notes := notes_or_null (qc_notes_in body) \<rparr>) tbl)))"

section \<open>The T1 page: state of the survey delivery\<close>

datatype Step = Loading | Audio | Survey | Submitting | Complete | Error

record t1_state =
  step :: Step
  errorMessage :: string
  audioUrl :: "string option"
  currentScaleIndex :: nat
  answers :: "string \<rightharpoonup> int"
  canContinueAudio :: bool
  playTime :: real

definition initial_state :: t1_state where
  "initial_state =
     \<lparr> step = Loading, errorMessage = [], audioUrl = None, currentScaleIndex = 0,
       answers = Map.empty, canContinueAudio = False, playTime = 0 \<rparr>"

definition fail_with :: "string \<Rightarrow> t1_state \<Rightarrow> t1_state" where
  "fail_with msg st = st\<lparr> errorMessage := msg, step := Error \<rparr>"

definition or_else :: "string option \<Rightarrow> string \<Rightarrow> string" where
  "or_else s d = (if truthy s then the s else d)"

text \<open>
  \<open>fetchAudio\<close>: \<open>answer\<close> is the parsed answer of the read endpoint, \<open>None\<close> when the
  request or the parsing throws. The page goes to the audio step only for an answer
  whose status is \<open>'ready'\<close> and whose URL is truthy.
\<close>

definition fetchAudio :: "audio_response option \<Rightarrow> t1_state \<Rightarrow> t1_state" where
  "fetchAudio answer st =
     (case answer of
        None \<Rightarrow> fail_with ''Failed to load audio'' st
      | Some data \<Rightarrow>
          if \<not> resp_ok data then fail_with (or_else (resp_error data) ''Failed to fetch audio'') st
          else if resp_found data = Some False then
            fail_with ''Participant not found. Please complete part 1 first.'' st
          else if resp_status data = Some ''pending'' then
            fail_with ''Your audio is still being generated. Please try again later.'' st
          else if resp_status data = Some ''qc_pending'' then
            fail_with ''Your audio is under review. Please try again later.'' st
          else if resp_status data \<noteq> Some ''ready'' \<or> \<not> truthy (resp_audio_url data) then
            fail_with ''Your audio is not available.'' st
          else st\<lparr> audioUrl := resp_audio_url data, step := Audio \<rparr>)"

text \<open>
  The effect run on mount: without the identifier in the page's URL the page fails at
  once, otherwise it asks the read endpoint.
\<close>

definition on_mount :: "string option \<Rightarrow> audio_response option \<Rightarrow> t1_state \<Rightarrow> t1_state" where
  "on_mount prolificPid answer st =
     (if \<not> truthy prolificPid then fail_with ''Missing PROLIFIC_PID'' st
      else fetchAudio answer st)"

text \<open>
  The page and the endpoint together: the page asks the endpoint for its own identifier
  and the answer arrives unchanged.
\<close>

definition load_page ::
  "string option \<Rightarrow> string option \<Rightarrow> (string \<Rightarrow> nat \<Rightarrow> string option) \<Rightarrow> participants \<Rightarrow> t1_state" where
  "load_page prolificPid dberr sign tbl =
     on_mount prolificPid (Some (GET_audio prolificPid dberr sign tbl)) initial_state"

section \<open>The audio generation script\<close>

text \<open>
  The script works on the participants table and on the bucket \<open>ads-audio\<close>, and calls
  the speech provider. The bucket is a list of named objects. The two counters record
  how many requests the run has sent to the provider and to the bucket's upload so far;
  the answers of the two collaborators are given per request, so that one request can
  fail and the next succeed.
\<close>

type_synonym bucket = "(string \<times> bytes) list"

record world =
  participants_of :: participants
  bucket_of :: bucket
  tts_calls :: nat
  upload_calls :: nat

text \<open>
  What the collaborators answer during one run. \<open>tts k text\<close> is the provider's answer
  to the \<open>k\<close>-th request: audio bytes, or a response that is not ok with its status
  and body. \<open>put k path\<close> is the error message of the \<open>k\<close>-th upload, if it fails.
  Every call to the store can be answered with an error: the listing of the bucket
  (\<open>list_error\<close>), the bulk update of the low rows (\<open>low_update_error\<close>), the fetch of
  the medium and high rows (\<open>fetch_error\<close>) and the update of one row inside the loop
  (\<open>row_update_error k\<close>, for the update issued after \<open>k\<close> provider requests). A call
  answered with an error changes nothing in the store. The script inspects the error
  of the bulk update and of the fetch; of the listing it reads only \<open>data\<close>, which is
  null on an error, and of the updates inside the loop it reads nothing.
  \<open>clock k\<close> is the time read after \<open>k\<close> provider requests.
\<close>

record collaborators =
  tts :: "nat \<Rightarrow> string \<Rightarrow> (nat \<times> string) + bytes"
  put :: "nat \<Rightarrow> string \<Rightarrow> string option"
  list_error :: "string option"
  low_update_error :: "string option"
  fetch_error :: "string option"
  row_update_error :: "nat \<Rightarrow> string option"
  clock :: "nat \<Rightarrow> timestamp"

definition BATCH_SIZE :: nat where
  "BATCH_SIZE = 50"

definition TEXTS_low :: string where
  "TEXTS_low = ''Welcome back to the podcast. This is the low personalization test ad. Now back to the episode.''"

definition TEXTS_medium :: string where
  "TEXTS_medium = ''Welcome back to the podcast. This is the medium personalization test ad. Now back to the episode.''"

definition TEXTS_high :: string where
  "TEXTS_high = ''Welcome back to the podcast. This is the high personalization test ad. Now back to the episode.''"

text \<open>Decimal rendering of a number inside a template string.\<close>

definition digit_char :: "nat \<Rightarrow> char" where
  "digit_char d = ''0123456789'' ! d"

function string_of_nat :: "nat \<Rightarrow> string" where
  "string_of_nat n = (if n < 10 then [digit_char n] else string_of_nat (n div 10) @ [digit_char (n mod 10)])"
  by pat_completeness auto
termination
  by (relation "measure id") auto

definition generateAudio :: "collaborators \<Rightarrow> string \<Rightarrow> world \<Rightarrow> (thrown + bytes) \<times> world" where
  "generateAudio env text w =
     (let w' = w\<lparr> tts_calls := Suc (tts_calls w) \<rparr> in
      case tts env (tts_calls w) text of
        Inl (code, errorText) \<Rightarrow>
          (Inl (JsError (''ElevenLabs API error: '' @ string_of_nat code @ '' - '' @ errorText)), w')
      | Inr audio \<Rightarrow> (Inr audio, w'))"

text \<open>Upload with \<open>upsert: true\<close>: an object of that name is replaced, else one is added.\<close>

definition bucket_put :: "string \<Rightarrow> bytes \<Rightarrow> bucket \<Rightarrow> bucket" where
  "bucket_put path buffer b =
     (if list_ex (\<lambda>f. fst f = path) b
      then map (\<lambda>f. if fst f = path then (path, buffer) else f) b
      else b @ [(path, buffer)])"

definition uploadAudio ::
  "collaborators \<Rightarrow> string \<Rightarrow> bytes \<Rightarrow> world \<Rightarrow> (thrown + unit) \<times> world" where
  "uploadAudio env path buffer w =
     (let w' = w\<lparr> upload_calls := Suc (upload_calls w) \<rparr> in
      case put env (upload_calls w) path of
        Some msg \<Rightarrow> (Inl (JsError (''Supabase upload error: '' @ msg)), w')
      | None \<Rightarrow> (Inr (), w'\<lparr> bucket_of := bucket_put path buffer (bucket_of w) \<rparr>))"

text \<open>
  Listing the bucket with a search text answers with the names that contain it.
\<close>

fun is_prefix :: "string \<Rightarrow> string \<Rightarrow> bool" where
  "is_prefix [] ys = True"
| "is_prefix (x # xs) [] = False"
| "is_prefix (x # xs) (y # ys) = (x = y \<and> is_prefix xs ys)"

fun contains :: "string \<Rightarrow> string \<Rightarrow> bool" where
  "contains [] s = is_prefix s []"
| "contains (c # cs) s = (is_prefix s (c # cs) \<or> contains cs s)"

definition bucket_list :: "string \<Rightarrow> bucket \<Rightarrow> string list" where
  "bucket_list search b = filter (\<lambda>name. contains name search) (map fst b)"

subsection \<open>processLowCondition\<close>

definition pending_low :: "participant \<Rightarrow> bool" where
  "pending_low r = (condition r = Some ''low'' \<and> audio_status r = Some ''pending'')"

definition low_cols :: "timestamp \<Rightarrow> participant \<Rightarrow> participant" where
  "low_cols now r =
     r\<lparr> audio_status := Some ''generated'', audio_path := Some ''low.mp3'',
        audio_generated_at := Some now, audio_error := None \<rparr>"

text \<open>The bulk update of all pending low rows, and the number of rows it returns.\<close>

definition update_low :: "collaborators \<Rightarrow> world \<Rightarrow> nat \<times> world" where
  "update_low env w =
     (case low_update_error env of
        Some msg \<Rightarrow> (0, w)
      | None \<Rightarrow>
          (length (filter pending_low (participants_of w)),
           w\<lparr> participants_of :=
                db_update pending_low (low_cols (clock env (tts_calls w))) (participants_of w) \<rparr>))"

text \<open>
  \<open>existingFile\<close> is the \<open>data\<close> of the listing: null when the listing is answered with
  an error. \<open>existingFile?.some(...)\<close> is then undefined, which the test that follows
  takes as the file not being there.
\<close>

definition existingFile :: "collaborators \<Rightarrow> world \<Rightarrow> string list option" where
  "existingFile env w =
     (case list_error env of
        Some msg \<Rightarrow> None
      | None \<Rightarrow> Some (bucket_list ''low.mp3'' (bucket_of w)))"

definition lowFileExists :: "collaborators \<Rightarrow> world \<Rightarrow> bool" where
  "lowFileExists env w =
     (case existingFile env w of
        None \<Rightarrow> False
      | Some files \<Rightarrow> list_ex (\<lambda>name. name = ''low.mp3'') files)"

definition processLowCondition :: "collaborators \<Rightarrow> world \<Rightarrow> nat \<times> world" where
  "processLowCondition env w =
     (if \<not> lowFileExists env w then
        (case generateAudio env TEXTS_low w of
           (Inl e, w1) \<Rightarrow> (0, w1)
         | (Inr audioBuffer, w1) \<Rightarrow>
             (case uploadAudio env ''low.mp3'' audioBuffer w1 of
                (Inl e, w2) \<Rightarrow> (0, w2)
              | (Inr u, w2) \<Rightarrow> update_low env w2))
      else update_low env w)"

subsection \<open>processMediumHighConditions\<close>

definition pending_medium_high :: "participant \<Rightarrow> bool" where
  "pending_medium_high r =
     ((condition r = Some ''medium'' \<or> condition r = Some ''high'')
        \<and> audio_status r = Some ''pending'')"

text \<open>
  The rows fetched: pending, medium or high, at most \<open>BATCH_SIZE\<close> of them. The query
  names no order; the model takes them in the order of the table.
\<close>

definition fetch_batch :: "participants \<Rightarrow> participant list" where
  "fetch_batch tbl = take BATCH_SIZE (filter pending_medium_high tbl)"

definition generated_cols :: "string \<Rightarrow> timestamp \<Rightarrow> participant \<Rightarrow> participant" where
  "generated_cols audioPath now r =
     r\<lparr> audio_status := Some ''generated'', audio_path := Some audioPath,
        audio_generated_at := Some now, audio_error := None \<rparr>"

definition error_cols :: "string \<Rightarrow> participant \<Rightarrow> participant" where
  "error_cols errorMsg r =
     r\<lparr> audio_status := Some ''error'', audio_error := Some (take 500 errorMsg) \<rparr>"

text \<open>
  The two updates of one row inside the loop. The script awaits them and reads nothing
  of their answer: when the store answers with an error the row stays as it is and the
  script goes on as if the update had been applied.
\<close>

definition mark_error :: "collaborators \<Rightarrow> string \<Rightarrow> thrown \<Rightarrow> world \<Rightarrow> world" where
  "mark_error env pid err w =
     (case row_update_error env (tts_calls w) of
        Some msg \<Rightarrow> w
      | None \<Rightarrow>
          w\<lparr> participants_of :=
               db_update (has_pid pid) (error_cols (message_of err)) (participants_of w) \<rparr>)"

definition mark_generated :: "collaborators \<Rightarrow> string \<Rightarrow> string \<Rightarrow> world \<Rightarrow> world" where
  "mark_generated env pid audioPath w =
     (case row_update_error env (tts_calls w) of
        Some msg \<Rightarrow> w
      | None \<Rightarrow>
          w\<lparr> participants_of :=
               db_update (has_pid pid) (generated_cols audioPath (clock env (tts_calls w)))
                 (participants_of w) \<rparr>)"

text \<open>
  The body of the loop for one fetched row: the answer says whether the row was counted
  as generated. The pause after each row changes nothing in the stores.
\<close>

definition process_one :: "collaborators \<Rightarrow> participant \<Rightarrow> world \<Rightarrow> bool \<times> world" where
  "process_one env p w =
     (let text = (if condition p = Some ''medium'' then TEXTS_medium else TEXTS_high);
          audioPath = prolific_pid p @ ''.mp3''
      in case generateAudio env text w of
           (Inl err, w1) \<Rightarrow> (False, mark_error env (prolific_pid p) err w1)
         | (Inr audioBuffer, w1) \<Rightarrow>
             (case uploadAudio env audioPath audioBuffer w1 of
                (Inl err, w2) \<Rightarrow> (False, mark_error env (prolific_pid p) err w2)
              | (Inr u, w2) \<Rightarrow> (True, mark_generated env (prolific_pid p) audioPath w2)))"

fun process_all ::
  "collaborators \<Rightarrow> participant list \<Rightarrow> nat \<times> nat \<Rightarrow> world \<Rightarrow> (nat \<times> nat) \<times> world" where
  "process_all env [] counts w = (counts, w)"
| "process_all env (p # ps) (generated, errors) w =
     (case process_one env p w of
        (True, w') \<Rightarrow> process_all env ps (Suc generated, errors) w'
      | (False, w') \<Rightarrow> process_all env ps (generated, Suc errors) w')"

definition processMediumHighConditions :: "collaborators \<Rightarrow> world \<Rightarrow> (nat \<times> nat) \<times> world" where
  "processMediumHighConditions env w =
     (case fetch_error env of
        Some msg \<Rightarrow> ((0, 0), w)
      | None \<Rightarrow>
          let participants = fetch_batch (participants_of w) in
          if participants = [] then ((0, 0), w)
          else process_all env participants (0, 0) w)"

section \<open>POST /api/admin/qc/replace-audio\<close>

text \<open>
  The multipart form: \<open>formData.get\<close> answers null for a member that is not there.
\<close>

record replace_form =
  form_prolific_pid :: "string option"
  form_file :: "bytes option"
  form_qc_notes :: "string option"

text \<open>
  What the collaborators answer to the upload, to the query for the current count and
  to the update, and the two readings of the clock. The handler inspects the error of
  the upload and of the update; of the query it reads only \<open>data\<close>, which is null when
  the query is answered with an error.
\<close>

record replace_env =
  upload_error :: "string option"
  read_error :: "string option"
  update_error :: "string option"
  generated_now :: timestamp
  checked_now :: timestamp

record qc_store =
  qc_participants :: participants
  qc_bucket :: bucket

definition replace_cols ::
  "string \<Rightarrow> replace_env \<Rightarrow> string option \<Rightarrow> int \<Rightarrow> participant \<Rightarrow> participant" where
  "replace_cols audioPath env qcNotes currentCount r =
     r\<lparr> audio_status := Some ''generated'',
        audio_path := Some audioPath,
        audio_generated_at := Some (generated_now env),
        audio_error := None,
        qc_status := ''pending'',
        qc_checked_at := Some (checked_now env),
        qc_notes := (if truthy qcNotes then qcNotes else None),
        qc_replaced_count := currentCount + 1 \<rparr>"

text \<open>
  \<open>currentData\<close> is the \<open>data\<close> of the query: null when the query is answered with an
  error or has no single row to answer with. \<open>currentData?.qc_replaced_count || 0\<close> is
  the count of the row, and 0 for null.
\<close>

definition currentData :: "replace_env \<Rightarrow> string \<Rightarrow> participants \<Rightarrow> participant option" where
  "currentData env pid tbl =
     (case read_error env of Some msg \<Rightarrow> None | None \<Rightarrow> db_single pid tbl)"

definition current_count :: "replace_env \<Rightarrow> string \<Rightarrow> participants \<Rightarrow> int" where
  "current_count env pid tbl =
     (case currentData env pid tbl of None \<Rightarrow> 0 | Some r \<Rightarrow> qc_replaced_count r)"

text \<open>The handler. The request is the parsed form, or what reading the form throws.\<close>

definition POST_replace_audio ::
  "thrown + replace_form \<Rightarrow> replace_env \<Rightarrow> qc_store \<Rightarrow> qc_response \<times> qc_store" where
  "POST_replace_audio req env s =
     (case req of
        Inl err \<Rightarrow> (QC_ServerError (message_of err), s)
      | Inr form \<Rightarrow>
          if \<not> truthy (form_prolific_pid form) then (QC_BadRequest ''Missing prolific_pid'', s)
          else if form_file form = None then (QC_BadRequest ''Missing file'', s)
          else
            let prolificPid = the (form_prolific_pid form);
                audioPath = prolificPid @ ''.mp3''
            in (case upload_error env of
                  Some msg \<Rightarrow> (QC_ServerError msg, s)
                | None \<Rightarrow>
                    let s1 = s\<lparr> qc_bucket := bucket_put audioPath (the (form_file form)) (qc_bucket s) \<rparr>;
                        currentCount = current_count env prolificPid (qc_participants s1)
                    in (case update_error env of
                          Some msg \<Rightarrow> (QC_ServerError msg, s1)
                        | None \<Rightarrow>
                            (QC_Ok,
                             s1\<lparr> qc_participants :=
                                   db_update (has_pid prolificPid)
                                     (replace_cols audioPath env (form_qc_notes form) currentCount)
                                     (qc_participants s1) \<rparr>))))"

section \<open>POST /api/t1/submit\<close>

text \<open>
  The payload of a response: the answers by item identifier and the time of completion,
  or the empty object the handler stores when the body carries none.
\<close>

datatype payload = EmptyObject | Responses "(string \<times> int) list" timestamp

record response_row =
  response_pid :: string
  response_payload :: payload

record t1_body =
  t1_prolific_pid :: "string field"
  t1_response_payload :: "payload option"

record t1_store =
  t1_participants :: participants
  responses_t1 :: "response_row list"

datatype t1_response = T1_BadRequest string | T1_ServerError string | T1_Ok

text \<open>
  The handler, with the store after each of its writes: the first element of the trace
  is the store it found, the last the store it leaves. The request is the parsed body,
  or what reading the body throws. \<open>insert_error\<close> and \<open>stamp_error\<close> are the errors the
  store answers the insert and the update with, if any.
\<close>

definition insert_response :: "t1_body \<Rightarrow> t1_store \<Rightarrow> t1_store" where
  "insert_response body s =
     s\<lparr> responses_t1 := responses_t1 s @
          [\<lparr> response_pid = str_of (t1_prolific_pid body),
             response_payload =
               (case t1_response_payload body of None \<Rightarrow> EmptyObject | Some p \<Rightarrow> p) \<rparr>] \<rparr>"

definition stamp_t1 :: "t1_body \<Rightarrow> timestamp \<Rightarrow> t1_store \<Rightarrow> t1_store" where
  "stamp_t1 body now s =
     s\<lparr> t1_participants :=
          db_update (has_pid (str_of (t1_prolific_pid body)))
            (\<lambda>r. r\<lparr> t1_completed_at := Some now \<rparr>) (t1_participants s) \<rparr>"

definition POST_t1 ::
  "thrown + t1_body \<Rightarrow> string option \<Rightarrow> string option \<Rightarrow> timestamp \<Rightarrow> t1_store
     \<Rightarrow> t1_response \<times> t1_store list" where
  "POST_t1 req insert_error stamp_error now s =
     (case req of
        Inl err \<Rightarrow> (T1_ServerError (message_of err), [s])
      | Inr body \<Rightarrow>
          if falsy (t1_prolific_pid body) then (T1_BadRequest ''Missing prolific_pid'', [s])
          else
            (case insert_error of
               Some msg \<Rightarrow> (T1_ServerError msg, [s])
             | None \<Rightarrow>
                 let s1 = insert_response body s in
                 (case stamp_error of
                    Some msg \<Rightarrow> (T1_ServerError msg, [s, s1])
                  | None \<Rightarrow> (T1_Ok, [s, s1, stamp_t1 body now s1]))))"

text \<open>A row carries a completion stamp that the store found by the handler did not have.\<close>

definition stamped_since :: "t1_store \<Rightarrow> t1_store \<Rightarrow> bool" where
  "stamped_since s0 s = (t1_participants s \<noteq> t1_participants s0)"

section \<open>The T1 page: audio gate and scales\<close>

text \<open>
  The questionnaire configuration. Of an item the page reads the identifier and the
  \<open>active\<close> flag to decide what can be advanced; the wording shown for an item is left
  out of the model.
\<close>

datatype scale_type = likert | semantic_differential

record item =
  item_id :: string
  active :: bool

record scale =
  scale_id :: string
  scale_label :: string
  type :: scale_type
  items :: "item list"

definition act :: "string \<Rightarrow> item" where
  "act i = \<lparr> item_id = i, active = True \<rparr>"

definition T1_ITEMS_scales :: "scale list" where
  "T1_ITEMS_scales =
     [ \<lparr> scale_id = ''relevance'', scale_label = ''Perceived Ad Relevance'', type = likert,
         items = map act [''rel1'', ''rel2'', ''rel3'', ''rel4'', ''rel5'', ''rel6'', ''rel7'',
                          ''rel8'', ''rel9'', ''rel10''] \<rparr>,
       \<lparr> scale_id = ''intrusiveness'', scale_label = ''Perceived Ad Intrusiveness'', type = likert,
         items = map act [''int1'', ''int2'', ''int3'', ''int4'', ''int5'', ''int6'', ''int7''] \<rparr>,
       \<lparr> scale_id = ''attitude'', scale_label = ''Attitude Toward the Ad'',
         type = semantic_differential,
         items = map act [''att1'', ''att2'', ''att3'', ''att4''] \<rparr>,
       \<lparr> scale_id = ''purchase_intention'', scale_label = ''Purchase Intention'',
         type = semantic_differential,
         items = map act [''pi1'', ''pi2'', ''pi3''] \<rparr>,
       \<lparr> scale_id = ''privacy_concerns'', scale_label = ''Privacy Concerns'', type = likert,
         items = map act [''priv1'', ''priv2'', ''priv3'', ''priv4''] \<rparr> ]"

text \<open>The scales with at least one active item, and the number of steps shown.\<close>

definition activeScales :: "scale list \<Rightarrow> scale list" where
  "activeScales scales = filter (\<lambda>scale. list_ex active (items scale)) scales"

definition totalSteps :: "scale list \<Rightarrow> nat" where
  "totalSteps scales = length (activeScales scales) + 1"

text \<open>
  The handlers of the audio element. \<open>handleTimeUpdate\<close> gets the element's current
  time, \<open>None\<close> when the element is not mounted.
\<close>

definition handleTimeUpdate :: "real option \<Rightarrow> t1_state \<Rightarrow> t1_state" where
  "handleTimeUpdate current st =
     (case current of
        None \<Rightarrow> st
      | Some currentTime \<Rightarrow>
          let st' = st\<lparr> playTime := currentTime \<rparr> in
          if playTime st' \<ge> 2 \<and> \<not> canContinueAudio st' then st'\<lparr> canContinueAudio := True \<rparr>
          else st')"

definition handleAudioEnded :: "t1_state \<Rightarrow> t1_state" where
  "handleAudioEnded st = st\<lparr> canContinueAudio := True \<rparr>"

text \<open>
  The answers are kept in a plain object, created as \<open>{}\<close> and copied with one more
  member by \<open>handleAnswerChange\<close>; the field \<open>answers\<close> of the state holds the members
  the object owns. Reading \<open>answers[id]\<close> gives the member of that name when the object
  owns one, and otherwise what every object inherits under that name: for the names
  below the read is not \<open>undefined\<close> although no answer was recorded.
\<close>

definition Object_prototype_names :: "string list" where
  "Object_prototype_names =
     [''constructor'', ''__defineGetter__'', ''__defineSetter__'', ''hasOwnProperty'',
      ''__lookupGetter__'', ''__lookupSetter__'', ''isPrototypeOf'', ''propertyIsEnumerable'',
      ''toString'', ''valueOf'', ''__proto__'', ''toLocaleString'']"

definition not_undefined :: "(string \<rightharpoonup> int) \<Rightarrow> string \<Rightarrow> bool" where
  "not_undefined obj key = (obj key \<noteq> None \<or> key \<in> set Object_prototype_names)"

text \<open>
  \<open>isCurrentScaleComplete\<close>. Reading the items of a scale index beyond the active scales
  throws; that is \<open>None\<close>.
\<close>

definition isCurrentScaleComplete :: "scale list \<Rightarrow> t1_state \<Rightarrow> bool option" where
  "isCurrentScaleComplete scales st =
     (if step st \<noteq> Survey then Some False
      else if currentScaleIndex st < length (activeScales scales) then
        (let scale = activeScales scales ! currentScaleIndex st;
             activeItems = filter active (items scale)
         in Some (list_all (\<lambda>item. not_undefined (answers st) (item_id item)) activeItems))
      else None)"

definition handleAnswerChange :: "string \<Rightarrow> int \<Rightarrow> t1_state \<Rightarrow> t1_state" where
  "handleAnswerChange itemId val st = st\<lparr> answers := (answers st)(itemId \<mapsto> val) \<rparr>"

text \<open>
  \<open>handleContinue\<close> up to the request of \<open>handleSubmit\<close>: from the audio step to the
  survey, from a scale to the next, and from the last scale to submitting.
\<close>

definition handleContinue :: "scale list \<Rightarrow> t1_state \<Rightarrow> t1_state" where
  "handleContinue scales st =
     (if step st = Audio then st\<lparr> step := Survey \<rparr>
      else if step st = Survey then
        (if int (currentScaleIndex st) < int (length (activeScales scales)) - 1
         then st\<lparr> currentScaleIndex := currentScaleIndex st + 1 \<rparr>
         else st\<lparr> step := Submitting \<rparr>)
      else st)"

text \<open>The rest of \<open>handleSubmit\<close>: the answer of the submit endpoint arrives.\<close>

definition submit_answered :: "(bool \<times> string option) option \<Rightarrow> t1_state \<Rightarrow> t1_state" where
  "submit_answered answer st =
     (case answer of
        None \<Rightarrow> fail_with ''Failed to submit responses'' st
      | Some (ok, err) \<Rightarrow>
          if \<not> ok then fail_with (or_else err ''Submission failed'') st
          else st\<lparr> step := Complete \<rparr>)"

text \<open>
  What can happen to the page once it is loaded. The audio element reports time updates
  and its end while it is shown, that is in the audio step. A radio button of an active
  item of the scale shown sets that item's answer to one of 1 to 7. A click on the
  button reaches \<open>handleContinue\<close> only when the button is not disabled: in the audio
  step when \<open>canContinueAudio\<close> holds, in the survey when the current scale is complete.
\<close>

datatype event =
    TimeUpdate "real option"
  | Ended
  | Answer string int
  | ClickContinue
  | SubmitAnswered "(bool \<times> string option) option"

definition radio_offered :: "scale list \<Rightarrow> t1_state \<Rightarrow> string \<Rightarrow> int \<Rightarrow> bool" where
  "radio_offered scales st itemId val =
     (step st = Survey \<and> currentScaleIndex st < length (activeScales scales)
        \<and> list_ex (\<lambda>item. active item \<and> item_id item = itemId)
             (items (activeScales scales ! currentScaleIndex st))
        \<and> val \<in> set [1, 2, 3, 4, 5, 6, 7])"

definition continue_enabled :: "scale list \<Rightarrow> t1_state \<Rightarrow> bool" where
  "continue_enabled scales st =
     (if step st = Audio then canContinueAudio st
      else if step st = Survey then isCurrentScaleComplete scales st = Some True
      else False)"

fun on_event :: "scale list \<Rightarrow> event \<Rightarrow> t1_state \<Rightarrow> t1_state" where
  "on_event scales (TimeUpdate t) st = (if step st = Audio then handleTimeUpdate t st else st)"
| "on_event scales Ended st = (if step st = Audio then handleAudioEnded st else st)"
| "on_event scales (Answer itemId val) st =
     (if radio_offered scales st itemId val then handleAnswerChange itemId val st else st)"
| "on_event scales ClickContinue st =
     (if continue_enabled scales st then handleContinue scales st else st)"
| "on_event scales (SubmitAnswered a) st =
     (if step st = Submitting then submit_answered a st else st)"

fun run_events :: "scale list \<Rightarrow> event list \<Rightarrow> t1_state \<Rightarrow> t1_state" where
  "run_events scales [] st = st"
| "run_events scales (e # es) st = run_events scales es (on_event scales e st)"

section \<open>Predicates and example stores used in the statements\<close>

text \<open>The audio columns and the QC columns of two rows agree.\<close>

definition same_audio_qc :: "participant \<Rightarrow> participant \<Rightarrow> bool" where
  "same_audio_qc r r' =
     (audio_status r' = audio_status r \<and> audio_path r' = audio_path r
      \<and> audio_error r' = audio_error r \<and> audio_generated_at r' = audio_generated_at r
      \<and> qc_status r' = qc_status r \<and> qc_checked_at r' = qc_checked_at r
      \<and> qc_notes r' = qc_notes r \<and> qc_replaced_count r' = qc_replaced_count r)"

text \<open>
  A high row whose audio was generated, replaced twice and approved, and a second T0
  submission for its identifier.
\<close>

definition high_row :: participant where
  "high_row = (new_participant ''P7'')\<lparr> condition := Some ''high'', audio_status := Some ''generated'',
      audio_path := Some ''P7.mp3'', audio_generated_at := Some ''t1'', qc_status := ''approved'',
      qc_checked_at := Some ''t2'', qc_notes := Some ''fine'', qc_replaced_count := 2 \<rparr>"

definition resubmission :: t0_body where
  "resubmission = \<lparr> t0_prolific_pid = Given ''P7'', t0_study_id = Given ''S'', t0_session_id = JNull,
       t0_payload = Some [(''first_name'', ''Ann'')] \<rparr>"

text \<open>
  A high row whose generated audio awaits review, a low row with the shared audio, and
  a blob store that signs every path.
\<close>

definition qc_pending_row :: participant where
  "qc_pending_row = (new_participant ''P9'')\<lparr> condition := Some ''high'',
      audio_status := Some ''generated'', audio_path := Some ''P9.mp3'',
      audio_generated_at := Some ''t1'' \<rparr>"

definition low_row :: participant where
  "low_row = (new_participant ''P1'')\<lparr> condition := Some ''low'',
      audio_status := Some ''generated'', audio_path := Some ''low.mp3'',
      audio_generated_at := Some ''t1'' \<rparr>"

definition approve_request :: qc_body where
  "approve_request = \<lparr> qc_prolific_pid = Given ''P9'', qc_notes_in = Undefined \<rparr>"

definition signer :: "string \<Rightarrow> nat \<Rightarrow> string option" where
  "signer path ttl = Some (''https://signed/'' @ path)"

text \<open>The row the T1 handler appends for a body, a body and a store to submit it to.\<close>

definition recorded_row :: "t1_body \<Rightarrow> response_row" where
  "recorded_row body =
     \<lparr> response_pid = str_of (t1_prolific_pid body),
       response_payload = (case t1_response_payload body of None \<Rightarrow> EmptyObject | Some p \<Rightarrow> p) \<rparr>"

definition t1_example_body :: t1_body where
  "t1_example_body = \<lparr> t1_prolific_pid = Given ''P1'',
       t1_response_payload = Some (Responses [(''rel1'', 4), (''rel2'', 7)] ''t8'') \<rparr>"

definition t1_example_store :: t1_store where
  "t1_example_store = \<lparr> t1_participants = [low_row], responses_t1 = [] \<rparr>"

text \<open>
  The outcome of a replacement in the columns the handler sets besides the counter: the
  audio is generated as of this call with no error, and the review is pending as of
  this call with the notes of the form.
\<close>

definition replaced :: "replace_env \<Rightarrow> string option \<Rightarrow> participant \<Rightarrow> bool" where
  "replaced env notes r' =
     (audio_status r' = Some ''generated''
      \<and> audio_generated_at r' = Some (generated_now env)
      \<and> audio_error r' = None
      \<and> qc_status r' = ''pending''
      \<and> qc_checked_at r' = Some (checked_now env)
      \<and> qc_notes r' = (if truthy notes then notes else None))"

text \<open>
  A store with a reviewed high row, a replacement form for it, answers without errors,
  and answers in which only the query for the current count fails.
\<close>

definition replace_store :: qc_store where
  "replace_store = \<lparr> qc_participants = [low_row, high_row], qc_bucket = [(''low.mp3'', [1, 2])] \<rparr>"

definition replace_request :: replace_form where
  "replace_request = \<lparr> form_prolific_pid = Some ''P7'', form_file = Some [3, 4],
       form_qc_notes = Some ''louder'' \<rparr>"

definition replace_answers :: replace_env where
  "replace_answers = \<lparr> upload_error = None, read_error = None, update_error = None,
       generated_now = ''t5'', checked_now = ''t6'' \<rparr>"

definition read_fails :: replace_env where
  "read_fails = \<lparr> upload_error = None, read_error = Some ''timeout'', update_error = None,
       generated_now = ''t5'', checked_now = ''t6'' \<rparr>"


text \<open>
  Every active item of the scale shown has a recorded answer, and every recorded answer
  is one of 1 to 7. No item of a configuration is named like a member that every
  object inherits.
\<close>

definition all_answered :: "scale list \<Rightarrow> t1_state \<Rightarrow> bool" where
  "all_answered scales st =
     (currentScaleIndex st < length (activeScales scales)
      \<and> list_all (\<lambda>item. answers st (item_id item) \<noteq> None)
           (filter active (items (activeScales scales ! currentScaleIndex st))))"

definition answers_in_range :: "t1_state \<Rightarrow> bool" where
  "answers_in_range st = (\<forall>k v. answers st k = Some v \<longrightarrow> 1 \<le> v \<and> v \<le> 7)"

definition own_item_ids :: "scale list \<Rightarrow> bool" where
  "own_item_ids scales =
     list_all (\<lambda>scale. list_all (\<lambda>item. item_id item \<notin> set Object_prototype_names) (items scale))
       scales"

text \<open>
  The page in the audio step and in the survey, the answers to the ten items of the
  first shipped scale, a configuration with a scale that has no active item between
  two that have one, and a configuration whose only item is named \<open>constructor\<close>.
\<close>

definition audio_state :: t1_state where
  "audio_state = initial_state\<lparr> audioUrl := Some ''https://signed/low.mp3'', step := Audio \<rparr>"

definition two_scales :: "scale list" where
  "two_scales =
     [ \<lparr> scale_id = ''a'', scale_label = ''A'', type = likert,
         items = [\<lparr> item_id = ''a1'', active = True \<rparr>, \<lparr> item_id = ''a2'', active = False \<rparr>] \<rparr>,
       \<lparr> scale_id = ''b'', scale_label = ''B'', type = likert,
         items = [\<lparr> item_id = ''b1'', active = False \<rparr>] \<rparr>,
       \<lparr> scale_id = ''c'', scale_label = ''C'', type = semantic_differential,
         items = [\<lparr> item_id = ''c1'', active = True \<rparr>] \<rparr> ]"

definition survey_state :: t1_state where
  "survey_state = audio_state\<lparr> canContinueAudio := True, step := Survey \<rparr>"

definition relevance_answers :: "event list" where
  "relevance_answers =
     [Answer ''rel1'' 4, Answer ''rel2'' 7, Answer ''rel3'' 1, Answer ''rel4'' 2, Answer ''rel5'' 5,
      Answer ''rel6'' 6, Answer ''rel7'' 3, Answer ''rel8'' 4, Answer ''rel9'' 4, Answer ''rel10'' 7]"

definition inherited_name_scale :: "scale list" where
  "inherited_name_scale =
     [ \<lparr> scale_id = ''s'', scale_label = ''S'', type = likert,
         items = [\<lparr> item_id = ''constructor'', active = True \<rparr>] \<rparr> ]"

text \<open>
  A run of the low branch. The shared artifact is ready when the listing shows the file
  or the provider and the upload both answer without error; the run succeeds when
  moreover the bulk update is not answered with an error.
\<close>

definition tts_ok :: "collaborators \<Rightarrow> world \<Rightarrow> string \<Rightarrow> bool" where
  "tts_ok env w text = (case tts env (tts_calls w) text of Inl e \<Rightarrow> False | Inr audio \<Rightarrow> True)"

definition low_artifact_ready :: "collaborators \<Rightarrow> world \<Rightarrow> bool" where
  "low_artifact_ready env w =
     (lowFileExists env w
      \<or> (tts_ok env w TEXTS_low \<and> put env (upload_calls w) ''low.mp3'' = None))"

definition low_run_succeeds :: "collaborators \<Rightarrow> world \<Rightarrow> bool" where
  "low_run_succeeds env w = (low_artifact_ready env w \<and> low_update_error env = None)"

text \<open>
  A run of the medium and high branch. The rows processed are the rows fetched, none
  when the fetch is answered with an error. A processed row ends generated when its
  status is generated, its path is the identifier followed by \<open>.mp3\<close> and its error is
  null; it ends in error when its status is error, its message is non-empty and at
  most 500 characters long, and its path is the one it had; it ends one way when
  exactly one of the two holds. The store applies the updates of single rows when it
  answers none of them with an error.
\<close>

definition ended_generated :: "participant \<Rightarrow> participant \<Rightarrow> bool" where
  "ended_generated p r' =
     (audio_status r' = Some ''generated''
      \<and> audio_path r' = Some (prolific_pid p @ ''.mp3'')
      \<and> audio_error r' = None)"

definition ended_error :: "participant \<Rightarrow> participant \<Rightarrow> bool" where
  "ended_error p r' =
     (audio_status r' = Some ''error''
      \<and> (case audio_error r' of None \<Rightarrow> False | Some m \<Rightarrow> m \<noteq> [] \<and> length m \<le> 500)
      \<and> audio_path r' = audio_path p)"

definition processed :: "collaborators \<Rightarrow> world \<Rightarrow> participant list" where
  "processed env w =
     (case fetch_error env of Some msg \<Rightarrow> [] | None \<Rightarrow> fetch_batch (participants_of w))"

definition updates_applied :: "collaborators \<Rightarrow> bool" where
  "updates_applied env = (\<forall>k. row_update_error env k = None)"

definition ended_one_way :: "participant \<Rightarrow> participant \<Rightarrow> bool" where
  "ended_one_way p r' = (ended_generated p r' \<noteq> ended_error p r')"

text \<open>The row of a processed row's identifier in a table ended generated, or in error.\<close>

definition ended_generated_in :: "participants \<Rightarrow> participant \<Rightarrow> bool" where
  "ended_generated_in tbl p =
     (case db_single (prolific_pid p) tbl of None \<Rightarrow> False | Some r' \<Rightarrow> ended_generated p r')"

definition ended_error_in :: "participants \<Rightarrow> participant \<Rightarrow> bool" where
  "ended_error_in tbl p =
     (case db_single (prolific_pid p) tbl of None \<Rightarrow> False | Some r' \<Rightarrow> ended_error p r')"

text \<open>
  Two pending low rows around a pending medium row with an empty bucket, and
  collaborators that answer every request; a pending medium row and a pending high
  row, and a provider that refuses the first request with status 429 and answers the
  next; collaborators that answer every request but the listing of the bucket, and
  collaborators that answer every request but the updates of single rows.
\<close>

definition quiet_world :: world where
  "quiet_world =
     \<lparr> participants_of =
         [ (new_participant ''P1'')\<lparr> condition := Some ''low'' \<rparr>,
           (new_participant ''P2'')\<lparr> condition := Some ''medium'' \<rparr>,
           (new_participant ''P4'')\<lparr> condition := Some ''low'', audio_error := Some ''old'' \<rparr> ],
       bucket_of = [], tts_calls = 0, upload_calls = 0 \<rparr>"

definition all_fine :: collaborators where
  "all_fine =
     \<lparr> tts = (\<lambda>k text. Inr [7, 7]), put = (\<lambda>k path. None),
       list_error = None, low_update_error = None, fetch_error = None,
       row_update_error = (\<lambda>k. None), clock = (\<lambda>k. ''t4'') \<rparr>"

definition listing_fails :: collaborators where
  "listing_fails =
     \<lparr> tts = (\<lambda>k text. Inr [7, 7]), put = (\<lambda>k path. None),
       list_error = Some ''unavailable'', low_update_error = None, fetch_error = None,
       row_update_error = (\<lambda>k. None), clock = (\<lambda>k. ''t4'') \<rparr>"

definition updates_refused :: collaborators where
  "updates_refused =
     \<lparr> tts = (\<lambda>k text. Inr [7, 7]), put = (\<lambda>k path. None),
       list_error = None, low_update_error = None, fetch_error = None,
       row_update_error = (\<lambda>k. Some ''refused''), clock = (\<lambda>k. ''t4'') \<rparr>"

definition busy_then_fine :: collaborators where
  "busy_then_fine =
     \<lparr> tts = (\<lambda>k text. if k = 0 then Inl (429, ''busy'') else Inr [7, 7]),
       put = (\<lambda>k path. None),
       list_error = None, low_update_error = None, fetch_error = None,
       row_update_error = (\<lambda>k. None), clock = (\<lambda>k. ''t4'') \<rparr>"

definition pending_world :: world where
  "pending_world =
     \<lparr> participants_of =
         [ (new_participant ''P2'')\<lparr> condition := Some ''medium'' \<rparr>,
           low_row,
           (new_participant ''P3'')\<lparr> condition := Some ''high'' \<rparr> ],
       bucket_of = [], tts_calls = 0, upload_calls = 0 \<rparr>"

section \<open>Store operations\<close>

lemma db_update_length: "length (db_update sel cols tbl) = length tbl"
  by (simp add: db_update_def)

lemma db_update_nth:
  "i < length tbl \<Longrightarrow> db_update sel cols tbl ! i = (if sel (tbl ! i) then cols (tbl ! i) else tbl ! i)"
  by (simp add: db_update_def)

lemma set_db_update:
  "r' \<in> set (db_update sel cols tbl) \<Longrightarrow> r' \<in> set tbl \<or> (\<exists>r\<in>set tbl. sel r \<and> r' = cols r)"
  by (auto simp: db_update_def)

lemma set_db_upsert:
  "r' \<in> set (db_upsert pid cols tbl) \<Longrightarrow> r' \<in> set tbl \<or> (\<exists>r. r' = cols r)"
  by (auto simp: db_upsert_def dest: set_db_update split: if_splits)

lemma db_upsert_length: "length tbl \<le> length (db_upsert pid cols tbl)"
  by (simp add: db_upsert_def db_update_length)

lemma db_upsert_existing_length:
  "list_ex (has_pid pid) tbl \<Longrightarrow> length (db_upsert pid cols tbl) = length tbl"
  by (simp add: db_upsert_def db_update_length)

lemma db_upsert_nth:
  "i < length tbl \<Longrightarrow> db_upsert pid cols tbl ! i = tbl ! i \<or> db_upsert pid cols tbl ! i = cols (tbl ! i)"
  by (simp add: db_upsert_def db_update_nth nth_append)

lemma db_upsert_nth_other:
  "i < length tbl \<Longrightarrow> prolific_pid (tbl ! i) \<noteq> pid \<Longrightarrow> db_upsert pid cols tbl ! i = tbl ! i"
  by (simp add: db_upsert_def db_update_nth nth_append has_pid_def)

lemma db_single_map:
  assumes "\<And>r. prolific_pid (g r) = prolific_pid r"
  shows "db_single pid (map g tbl) = map_option g (db_single pid tbl)"
proof -
  have "filter (has_pid pid) (map g tbl) = map g (filter (has_pid pid) tbl)"
    using assms by (induction tbl) (simp_all add: has_pid_def)
  then show ?thesis by (simp add: db_single_def split: list.splits)
qed

lemma filter_db_update:
  assumes "\<And>r. prolific_pid (cols r) = prolific_pid r"
  shows "filter (has_pid pid) (db_update (has_pid pid) cols tbl) = map cols (filter (has_pid pid) tbl)"
  using assms by (induction tbl) (auto simp: db_update_def has_pid_def)

lemma db_single_db_update:
  assumes "\<And>r. prolific_pid (cols r) = prolific_pid r"
  shows "db_single pid (db_update (has_pid pid) cols tbl) = map_option cols (db_single pid tbl)"
  unfolding db_single_def filter_db_update [OF assms]
  by (auto split: list.splits)

section \<open>T0 submission: the condition written and the columns left alone\<close>

lemma t0_fields_condition: "condition (t0_fields body now r) = Some ''low''"
  by (simp add: t0_fields_def)

lemma t0_fields_pid: "prolific_pid (t0_fields body now r) = prolific_pid r"
  by (simp add: t0_fields_def)

lemma db_upsert_has_pid: "list_ex (has_pid pid) (db_upsert pid (t0_fields body now) tbl)"
proof (cases "list_ex (has_pid pid) tbl")
  case True
  then obtain r where "r \<in> set tbl" "prolific_pid r = pid"
    by (auto simp: list_ex_iff has_pid_def)
  then have "t0_fields body now r \<in> set (db_update (has_pid pid) (t0_fields body now) tbl)"
    by (force simp: db_update_def has_pid_def)
  moreover have "has_pid pid (t0_fields body now r)"
    using \<open>prolific_pid r = pid\<close> by (simp add: has_pid_def t0_fields_pid)
  ultimately show ?thesis using True
    unfolding db_upsert_def list_ex_iff by auto
next
  case False
  then show ?thesis
    by (simp add: db_upsert_def has_pid_def t0_fields_pid new_participant_def)
qed

lemma db_upsert_t0_low:
  assumes "r' \<in> set (db_upsert pid (t0_fields body now) tbl)" "prolific_pid r' = pid"
  shows "condition r' = Some ''low''"
proof (cases "list_ex (has_pid pid) tbl")
  case True
  with assms obtain r where "r \<in> set tbl" "r' = (if has_pid pid r then t0_fields body now r else r)"
    by (auto simp: db_upsert_def db_update_def)
  with assms(2) show ?thesis
    by (cases "has_pid pid r") (simp_all add: t0_fields_condition has_pid_def)
next
  case False
  with assms have "r' \<in> set tbl \<or> r' = t0_fields body now (new_participant pid)"
    by (auto simp: db_upsert_def)
  then show ?thesis
  proof
    assume "r' \<in> set tbl"
    with False assms(2) show ?thesis by (auto simp: list_ex_iff has_pid_def)
  next
    assume "r' = t0_fields body now (new_participant pid)"
    then have "condition r' = condition (t0_fields body now (new_participant pid))" by simp
    then show ?thesis by (simp only: t0_fields_condition)
  qed
qed

text \<open>
  C3. Whatever the request, the answer of the store and the table found, every row of
  the table left by the T0 handler is a row that was there before or carries the
  condition \<open>'low'\<close>; and after a successful submission the identifier has a row, and
  each row of that identifier carries \<open>'low'\<close>, also when the identifier had a row with
  another condition before.
\<close>

theorem t0_submit_assigns_low:
  assumes "POST_t0 req dberr now tbl = (resp, tbl')"
  shows "(\<forall>r'\<in>set tbl'. r' \<in> set tbl \<or> condition r' = Some ''low'')
       \<and> (\<forall>pid ks. resp = T0_Success pid ks \<longrightarrow>
             list_ex (has_pid pid) tbl'
             \<and> (\<forall>r'\<in>set tbl'. prolific_pid r' = pid \<longrightarrow> condition r' = Some ''low''))"
proof (intro conjI ballI allI impI)
  fix r' assume "r' \<in> set tbl'"
  with assms show "r' \<in> set tbl \<or> condition r' = Some ''low''"
    by (auto simp: POST_t0_def t0_fields_condition split: option.splits if_splits dest!: set_db_upsert)
next
  fix pid ks assume "resp = T0_Success pid ks"
  with assms show "list_ex (has_pid pid) tbl'"
    by (auto simp: POST_t0_def db_upsert_has_pid split: option.splits if_splits)
next
  fix pid ks r' assume "resp = T0_Success pid ks" "r' \<in> set tbl'" "prolific_pid r' = pid"
  with assms show "condition r' = Some ''low''"
    by (auto simp: POST_t0_def split: option.splits if_splits dest: db_upsert_t0_low)
qed

theorem t0_submit_assigns_low_witness:
  "POST_t0 (Some resubmission) None ''t3'' [high_row]
     = (T0_Success ''P7'' [''first_name''], [t0_fields resubmission ''t3'' high_row])
   \<and> condition high_row = Some ''high''
   \<and> condition (t0_fields resubmission ''t3'' high_row) = Some ''low''"
proof -
  have run: "POST_t0 (Some resubmission) None ''t3'' [high_row]
     = (T0_Success ''P7'' [''first_name''], [t0_fields resubmission ''t3'' high_row])"
    by (simp add: POST_t0_def resubmission_def high_row_def falsy_def str_of_def db_upsert_def
        db_update_def has_pid_def new_participant_def)
  from t0_submit_assigns_low [OF run] show ?thesis
    using run by (simp add: high_row_def t0_fields_condition new_participant_def)
qed

lemma t0_fields_frame:
  "same_audio_qc r (t0_fields body now r)
   \<and> prolific_pid (t0_fields body now r) = prolific_pid r
   \<and> t1_completed_at (t0_fields body now r) = t1_completed_at r
   \<and> (\<exists>a b c d. t0_fields body now r = r\<lparr> study_id_t0 := a, session_id_t0 := b,
                                             condition := c, t0_completed_at := d \<rparr>)"
  by (auto simp: same_audio_qc_def t0_fields_def)

lemma unchanged_frame:
  "same_audio_qc r r
   \<and> (\<exists>a b c d. r = r\<lparr> study_id_t0 := a, session_id_t0 := b,
                        condition := c, t0_completed_at := d \<rparr>)"
proof -
  have "r = r\<lparr> study_id_t0 := study_id_t0 r, session_id_t0 := session_id_t0 r,
               condition := condition r, t0_completed_at := t0_completed_at r \<rparr>"
    by simp
  then have "\<exists>a b c d. r = r\<lparr> study_id_t0 := a, session_id_t0 := b,
                        condition := c, t0_completed_at := d \<rparr>"
    by (intro exI)
  moreover have "same_audio_qc r r" by (simp add: same_audio_qc_def)
  ultimately show ?thesis by (rule conjI [rotated])
qed

lemma POST_t0_table:
  "snd (POST_t0 req dberr now tbl) = tbl
   \<or> (\<exists>body. req = Some body
         \<and> fst (POST_t0 req dberr now tbl)
             = T0_Success (str_of (t0_prolific_pid body)) (map fst (the (t0_payload body)))
         \<and> snd (POST_t0 req dberr now tbl)
             = db_upsert (str_of (t0_prolific_pid body)) (t0_fields body now) tbl)"
  by (auto simp: POST_t0_def split: option.splits)

lemma POST_t0_failure:
  "(\<forall>pid ks. fst (POST_t0 req dberr now tbl) \<noteq> T0_Success pid ks)
     \<Longrightarrow> snd (POST_t0 req dberr now tbl) = tbl"
  by (auto simp: POST_t0_def split: option.splits)

text \<open>
  C10. The T0 handler leaves every row that was in the table at its place with its
  identifier, its audio columns (status, path, error, generated time), its QC columns
  (status, checked time, notes, replacement count) and its T1 completion time; a row
  differs from what it was in at most the study identifier, the session identifier,
  the condition and the T0 completion time. A successful submission for an identifier
  that has a row adds no row and leaves the rows of other identifiers as they were.
\<close>

theorem t0_resubmission_frame:
  assumes "POST_t0 req dberr now tbl = (resp, tbl')"
  shows "length tbl \<le> length tbl'
       \<and> (\<forall>i<length tbl.
             same_audio_qc (tbl ! i) (tbl' ! i)
             \<and> prolific_pid (tbl' ! i) = prolific_pid (tbl ! i)
             \<and> t1_completed_at (tbl' ! i) = t1_completed_at (tbl ! i)
             \<and> (\<exists>a b c d. tbl' ! i = (tbl ! i)\<lparr> study_id_t0 := a, session_id_t0 := b,
                                                condition := c, t0_completed_at := d \<rparr>))
       \<and> (\<forall>pid ks. resp = T0_Success pid ks \<longrightarrow>
             (list_ex (has_pid pid) tbl \<longrightarrow> length tbl' = length tbl)
             \<and> (\<forall>i<length tbl. prolific_pid (tbl ! i) \<noteq> pid \<longrightarrow> tbl' ! i = tbl ! i))"
proof -
  from assms have r: "fst (POST_t0 req dberr now tbl) = resp" and t: "snd (POST_t0 req dberr now tbl) = tbl'"
    by simp_all
  from POST_t0_table [of req dberr now tbl]
  consider (same) "tbl' = tbl"
    | (upsert) body where "req = Some body"
        "resp = T0_Success (str_of (t0_prolific_pid body)) (map fst (the (t0_payload body)))"
        "tbl' = db_upsert (str_of (t0_prolific_pid body)) (t0_fields body now) tbl"
    unfolding r t by blast
  then show ?thesis
  proof cases
    case same
    then show ?thesis using unchanged_frame by simp
  next
    case upsert
    have rows: "same_audio_qc (tbl ! i) (tbl' ! i)
             \<and> prolific_pid (tbl' ! i) = prolific_pid (tbl ! i)
             \<and> t1_completed_at (tbl' ! i) = t1_completed_at (tbl ! i)
             \<and> (\<exists>a b c d. tbl' ! i = (tbl ! i)\<lparr> study_id_t0 := a, session_id_t0 := b,
                                                condition := c, t0_completed_at := d \<rparr>)"
      if "i < length tbl" for i
    proof -
      from db_upsert_nth [OF that, of "str_of (t0_prolific_pid body)" "t0_fields body now"]
      have "tbl' ! i = tbl ! i \<or> tbl' ! i = t0_fields body now (tbl ! i)"
        by (simp only: upsert(3))
      then show ?thesis
      proof
        assume "tbl' ! i = tbl ! i"
        then show ?thesis using unchanged_frame [of "tbl ! i"] by simp
      next
        assume "tbl' ! i = t0_fields body now (tbl ! i)"
        then show ?thesis using t0_fields_frame [of "tbl ! i" body now] by simp
      qed
    qed
    have len: "length tbl \<le> length tbl'"
      by (simp only: upsert(3) db_upsert_length)
    have succ: "(list_ex (has_pid pid) tbl \<longrightarrow> length tbl' = length tbl)
             \<and> (\<forall>i<length tbl. prolific_pid (tbl ! i) \<noteq> pid \<longrightarrow> tbl' ! i = tbl ! i)"
      if "resp = T0_Success pid ks" for pid ks
    proof -
      from that upsert(2) have "pid = str_of (t0_prolific_pid body)" by simp
      then show ?thesis
        by (simp add: upsert(3) db_upsert_existing_length db_upsert_nth_other)
    qed
    from rows len succ show ?thesis by blast
  qed
qed

theorem t0_resubmission_frame_witness:
  "POST_t0 (Some resubmission) None ''t3'' [high_row]
     = (T0_Success ''P7'' [''first_name''], [t0_fields resubmission ''t3'' high_row])
   \<and> same_audio_qc high_row (t0_fields resubmission ''t3'' high_row)
   \<and> audio_status (t0_fields resubmission ''t3'' high_row) = Some ''generated''
   \<and> qc_status (t0_fields resubmission ''t3'' high_row) = ''approved''"
proof -
  have run: "POST_t0 (Some resubmission) None ''t3'' [high_row]
     = (T0_Success ''P7'' [''first_name''], [t0_fields resubmission ''t3'' high_row])"
    by (simp add: POST_t0_def resubmission_def high_row_def falsy_def str_of_def db_upsert_def
        db_update_def has_pid_def new_participant_def)
  from t0_resubmission_frame [OF run]
  have "same_audio_qc ([high_row] ! 0) ([t0_fields resubmission ''t3'' high_row] ! 0)"
    by simp
  then show ?thesis using run
    by (simp add: same_audio_qc_def high_row_def)
qed

section \<open>The read endpoint and the page that asks it\<close>

text \<open>
  The endpoint attaches a URL exactly when the row exists, its audio status is
  \<open>'generated'\<close>, its path is truthy and the blob store signs the path. Neither the
  condition nor the QC status takes part.
\<close>

lemma GET_audio_url_iff:
  "resp_audio_url (GET_audio pid dberr sign tbl) = Some url \<longleftrightarrow>
     truthy pid \<and> dberr = None
     \<and> (\<exists>r. db_single (the pid) tbl = Some r \<and> audio_status r = Some ''generated''
              \<and> truthy (audio_path r) \<and> sign (the (audio_path r)) 600 = Some url)"
  by (auto simp: GET_audio_def no_members_def Let_def split: option.splits)

text \<open>
  The answer of the endpoint is the same for two tables that differ in columns other
  than the identifier, the condition and the audio columns; so it is the same before
  and after an approval.
\<close>

lemma GET_audio_map:
  assumes "\<And>r. prolific_pid (g r) = prolific_pid r \<and> condition (g r) = condition r
             \<and> audio_status (g r) = audio_status r \<and> audio_path (g r) = audio_path r
             \<and> audio_error (g r) = audio_error r \<and> audio_generated_at (g r) = audio_generated_at r"
  shows "GET_audio pid dberr sign (map g tbl) = GET_audio pid dberr sign tbl"
proof -
  have "db_single (the pid) (map g tbl) = map_option g (db_single (the pid) tbl)"
    using assms by (intro db_single_map) simp
  then show ?thesis
    by (cases "db_single (the pid) tbl") (simp_all add: GET_audio_def assms split: option.splits)
qed

lemma GET_audio_after_approve:
  "GET_audio pid dberr sign (snd (POST_approve req dberr' now tbl)) = GET_audio pid dberr sign tbl"
proof -
  have "snd (POST_approve req dberr' now tbl) = tbl
      \<or> (\<exists>sel q c n. snd (POST_approve req dberr' now tbl)
            = map (\<lambda>r. if sel r then r\<lparr> qc_status := q, qc_checked_at := c, qc_notes := n \<rparr> else r) tbl)"
    by (auto simp: POST_approve_def db_update_def split: sum.splits option.splits)
  then show ?thesis
  proof (elim disjE exE)
    fix sel q c n
    assume "snd (POST_approve req dberr' now tbl)
            = map (\<lambda>r. if sel r then r\<lparr> qc_status := q, qc_checked_at := c, qc_notes := n \<rparr> else r) tbl"
    then show ?thesis by (simp only: ) (rule GET_audio_map, simp)
  qed simp
qed

text \<open>
  C1 at a high row with generated audio and QC status pending: the rule of the
  specification says the audio is not servable, the endpoint answers with the raw audio
  status \<open>'generated'\<close> and a signed URL. Approving the row sets its QC status and
  leaves the answer of the endpoint as it was.
\<close>

theorem get_audio_ignores_qc:
  "condition qc_pending_row = Some ''high''
   \<and> audio_status qc_pending_row = Some ''generated''
   \<and> qc_status qc_pending_row = ''pending''
   \<and> resp_status (GET_audio (Some ''P9'') None signer [qc_pending_row]) = Some ''generated''
   \<and> resp_audio_url (GET_audio (Some ''P9'') None signer [qc_pending_row])
       = Some ''https://signed/P9.mp3''
   \<and> map qc_status (snd (POST_approve (Inr approve_request) None ''t2'' [qc_pending_row]))
       = [''approved'']
   \<and> GET_audio (Some ''P9'') None signer
         (snd (POST_approve (Inr approve_request) None ''t2'' [qc_pending_row]))
       = GET_audio (Some ''P9'') None signer [qc_pending_row]"
proof -
  have "map qc_status (snd (POST_approve (Inr approve_request) None ''t2'' [qc_pending_row]))
       = [''approved'']"
    by (simp add: POST_approve_def approve_request_def falsy_def str_of_def db_update_def has_pid_def
        qc_pending_row_def new_participant_def)
  then show ?thesis
    by (simp add: GET_audio_after_approve)
      (simp add: qc_pending_row_def new_participant_def GET_audio_def
        truthy_def db_single_def has_pid_def no_members_def signer_def)
qed

lemma qc_pending_row_not_servable: "\<not> spec_servable qc_pending_row"
  by (simp add: spec_servable_def qc_pending_row_def new_participant_def)

text \<open>
  The endpoint answers with the audio status of the row, and signs only for
  \<open>'generated'\<close>; the page goes on only for the status \<open>'ready'\<close> with a URL. So the page
  ends in the error step for every identifier, store answer and table.
\<close>

lemma load_page_never_audio: "step (load_page prolificPid dberr sign tbl) = Error"
  by (auto simp: load_page_def on_mount_def fetchAudio_def fail_with_def GET_audio_def
      no_members_def Let_def truthy_def initial_state_def split: option.splits)

text \<open>
  C2 at a low row with audio status generated and path \<open>low.mp3\<close>: the audio is servable
  by the rule and the endpoint attaches the signed URL, yet the page ends in the error
  step with the message that the audio is not available.
\<close>

theorem page_rejects_generated_low:
  "condition low_row = Some ''low''
   \<and> audio_status low_row = Some ''generated''
   \<and> audio_path low_row = Some ''low.mp3''
   \<and> resp_audio_url (GET_audio (Some ''P1'') None signer [low_row]) = Some ''https://signed/low.mp3''
   \<and> step (load_page (Some ''P1'') None signer [low_row]) = Error
   \<and> errorMessage (load_page (Some ''P1'') None signer [low_row]) = ''Your audio is not available.''"
  by (simp add: low_row_def new_participant_def GET_audio_def
      truthy_def db_single_def has_pid_def no_members_def signer_def load_page_def on_mount_def
      fetchAudio_def fail_with_def initial_state_def)

lemma low_row_servable: "spec_servable low_row"
  by (simp add: spec_servable_def low_row_def new_participant_def)

section \<open>T1 submission: the response before the stamp\<close>

lemma insert_response_participants: "t1_participants (insert_response body s) = t1_participants s"
  by (simp add: insert_response_def)

lemma insert_response_rows:
  "responses_t1 (insert_response body s) = responses_t1 s @ [recorded_row body]"
  by (simp add: insert_response_def recorded_row_def)

lemma stamp_t1_rows: "responses_t1 (stamp_t1 body now s) = responses_t1 s"
  by (simp add: stamp_t1_def)

lemma POST_t1_cases:
  "POST_t1 req insert_error stamp_error now s = (resp, trace) \<Longrightarrow>
     (resp \<noteq> T1_Ok \<and> trace = [s])
   \<or> (\<exists>body. req = Inr body \<and> insert_error = None \<and> resp \<noteq> T1_Ok
          \<and> trace = [s, insert_response body s])
   \<or> (\<exists>body. req = Inr body \<and> insert_error = None \<and> resp = T1_Ok
          \<and> trace = [s, insert_response body s, stamp_t1 body now (insert_response body s)])"
  by (auto simp: POST_t1_def Let_def split: option.splits sum.splits if_splits)

text \<open>
  C7. When the store answers the insert with an error the handler does not answer ok
  and writes nothing. In every store of an execution in which a participant row
  differs from the store found, the response of the request has been appended to the
  response log. An execution that answers ok passed through a store that holds the
  response while the participants are still as found, and stamped after it.
\<close>

theorem t1_stamp_after_insert:
  assumes "POST_t1 req insert_error stamp_error now s = (resp, trace)"
  shows "(insert_error \<noteq> None \<longrightarrow> resp \<noteq> T1_Ok \<and> trace = [s])
       \<and> (\<forall>s'\<in>set trace. stamped_since s s' \<longrightarrow>
             (\<exists>body. req = Inr body \<and> responses_t1 s' = responses_t1 s @ [recorded_row body]))
       \<and> (resp = T1_Ok \<longrightarrow>
             (\<exists>body s1 s2. req = Inr body \<and> trace = [s, s1, s2]
                \<and> t1_participants s1 = t1_participants s
                \<and> responses_t1 s1 = responses_t1 s @ [recorded_row body]
                \<and> s2 = stamp_t1 body now s1))"
  using POST_t1_cases [OF assms]
  by (auto simp: stamped_since_def insert_response_participants insert_response_rows stamp_t1_rows)


theorem t1_stamp_after_insert_witness:
  "POST_t1 (Inr t1_example_body) None None ''t9'' t1_example_store
     = (T1_Ok, [t1_example_store, insert_response t1_example_body t1_example_store,
                stamp_t1 t1_example_body ''t9'' (insert_response t1_example_body t1_example_store)])
   \<and> stamped_since t1_example_store
        (stamp_t1 t1_example_body ''t9'' (insert_response t1_example_body t1_example_store))
   \<and> responses_t1 (stamp_t1 t1_example_body ''t9'' (insert_response t1_example_body t1_example_store))
        = [recorded_row t1_example_body]
   \<and> POST_t1 (Inr t1_example_body) (Some ''down'') None ''t9'' t1_example_store
        = (T1_ServerError ''down'', [t1_example_store])"
proof -
  have run: "POST_t1 (Inr t1_example_body) None None ''t9'' t1_example_store
     = (T1_Ok, [t1_example_store, insert_response t1_example_body t1_example_store,
                stamp_t1 t1_example_body ''t9'' (insert_response t1_example_body t1_example_store)])"
    by (simp add: POST_t1_def t1_example_body_def falsy_def Let_def)
  have stamped: "stamped_since t1_example_store
        (stamp_t1 t1_example_body ''t9'' (insert_response t1_example_body t1_example_store))"
    by (simp add: stamped_since_def stamp_t1_def insert_response_def t1_example_body_def
        t1_example_store_def db_update_def has_pid_def low_row_def new_participant_def str_of_def)
  have failed: "POST_t1 (Inr t1_example_body) (Some ''down'') None ''t9'' t1_example_store
        = (T1_ServerError ''down'', [t1_example_store])"
    by (simp add: POST_t1_def t1_example_body_def falsy_def Let_def)
  from t1_stamp_after_insert [OF run] stamped
  have "responses_t1 (stamp_t1 t1_example_body ''t9'' (insert_response t1_example_body t1_example_store))
        = responses_t1 t1_example_store @ [recorded_row t1_example_body]"
    by auto
  then show ?thesis using run stamped failed by (simp add: t1_example_store_def)
qed

section \<open>Replacing audio: the replacement counter\<close>

lemma replace_cols_pid: "prolific_pid (replace_cols p env n c r) = prolific_pid r"
  by (simp add: replace_cols_def)

lemma POST_replace_audio_ok:
  assumes "POST_replace_audio (Inr form) env s = (QC_Ok, s')"
      and "form_prolific_pid form = Some pid"
  shows "qc_participants s' =
           db_update (has_pid pid)
             (replace_cols (pid @ ''.mp3'') env (form_qc_notes form)
                (current_count env pid (qc_participants s)))
             (qc_participants s)"
  using assms
  by (auto simp: POST_replace_audio_def Let_def split: option.splits sum.splits if_splits)

lemma replace_once:
  assumes "db_single pid (qc_participants s) = Some r"
      and "POST_replace_audio (Inr form) env s = (QC_Ok, s')"
      and "form_prolific_pid form = Some pid"
  shows "\<exists>r'. db_single pid (qc_participants s') = Some r'
            \<and> replaced env (form_qc_notes form) r'
            \<and> qc_replaced_count r' = (if read_error env = None then qc_replaced_count r + 1 else 1)"
  unfolding POST_replace_audio_ok [OF assms(2,3)] db_single_db_update [OF replace_cols_pid]
  using assms(1)
  by (auto simp: replaced_def replace_cols_def current_count_def currentData_def)

text \<open>
  When the store answers the query for the current count, a call that answers ok for
  the identifier of an existing row leaves the row with audio status generated, the
  generated time of this call, no audio error, QC status pending, the checked time of
  this call, the notes of the form, and a replacement count one above the count before
  the call; after a second such call the count is two above the first count. When the
  store answers the query with an error and accepts the update, the call answers ok
  all the same and the count is 1.
\<close>

lemma replace_when_read_answers:
  assumes "db_single pid (qc_participants s) = Some r"
      and "POST_replace_audio (Inr form) env s = (QC_Ok, s')"
      and "form_prolific_pid form = Some pid"
      and "read_error env = None"
  shows "(\<exists>r'. db_single pid (qc_participants s') = Some r'
            \<and> replaced env (form_qc_notes form) r'
            \<and> qc_replaced_count r' = qc_replaced_count r + 1)
       \<and> (\<forall>form2 env2 s''.
             POST_replace_audio (Inr form2) env2 s' = (QC_Ok, s'') \<and> form_prolific_pid form2 = Some pid
             \<and> read_error env2 = None
             \<longrightarrow> (\<exists>r''. db_single pid (qc_participants s'') = Some r''
                    \<and> replaced env2 (form_qc_notes form2) r''
                    \<and> qc_replaced_count r'' = qc_replaced_count r + 2))"
proof (intro conjI allI impI)
  show first: "\<exists>r'. db_single pid (qc_participants s') = Some r'
            \<and> replaced env (form_qc_notes form) r'
            \<and> qc_replaced_count r' = qc_replaced_count r + 1"
    using replace_once [OF assms(1,2,3)] assms(4) by simp
  fix form2 env2 s''
  assume second: "POST_replace_audio (Inr form2) env2 s' = (QC_Ok, s'') \<and> form_prolific_pid form2 = Some pid
             \<and> read_error env2 = None"
  from first obtain r' where r': "db_single pid (qc_participants s') = Some r'"
    "qc_replaced_count r' = qc_replaced_count r + 1" by blast
  from second have run: "POST_replace_audio (Inr form2) env2 s' = (QC_Ok, s'')"
    and pid: "form_prolific_pid form2 = Some pid" and rd: "read_error env2 = None"
    by simp_all
  from replace_once [OF r'(1) run pid] r'(2) rd
  show "\<exists>r''. db_single pid (qc_participants s'') = Some r''
                    \<and> replaced env2 (form_qc_notes form2) r''
                    \<and> qc_replaced_count r'' = qc_replaced_count r + 2"
    by auto
qed

lemma replace_failed_read:
  assumes "db_single pid (qc_participants s) = Some r"
      and "POST_replace_audio (Inr form) env s = (QC_Ok, s')"
      and "form_prolific_pid form = Some pid"
      and "read_error env = Some msg"
  shows "\<exists>r'. db_single pid (qc_participants s') = Some r' \<and> qc_replaced_count r' = 1"
  using replace_once [OF assms(1,2,3)] assms(4) by auto

text \<open>
  C6 at a row whose replacement count is 2. With every call of the handler answered
  without error the call answers ok and the count becomes 3. With the query for the
  current count answered with an error, the upload and the update accepted, the call
  answers ok as well, and the count becomes 1 instead of 3: the handler reads no error
  from the query and takes the missing data as a count of 0.
\<close>

theorem replace_audio_failed_read:
  "db_single ''P7'' (qc_participants replace_store) = Some high_row
   \<and> qc_replaced_count high_row = 2
   \<and> fst (POST_replace_audio (Inr replace_request) replace_answers replace_store) = QC_Ok
   \<and> map_option qc_replaced_count
        (db_single ''P7'' (qc_participants
           (snd (POST_replace_audio (Inr replace_request) replace_answers replace_store)))) = Some 3
   \<and> fst (POST_replace_audio (Inr replace_request) read_fails replace_store) = QC_Ok
   \<and> map_option qc_replaced_count
        (db_single ''P7'' (qc_participants
           (snd (POST_replace_audio (Inr replace_request) read_fails replace_store)))) = Some 1"
  by (simp add: POST_replace_audio_def replace_request_def replace_answers_def read_fails_def
      replace_store_def truthy_def Let_def current_count_def currentData_def db_single_def
      db_update_def has_pid_def replace_cols_def low_row_def high_row_def new_participant_def
      bucket_put_def)

section \<open>The audio gate of the T1 page\<close>











section \<open>Advancing through the scales\<close>

lemma own_item_ids_shown:
  assumes "own_item_ids scales" "currentScaleIndex st < length (activeScales scales)"
      and "item \<in> set (items (activeScales scales ! currentScaleIndex st))"
  shows "not_undefined (answers st) (item_id item) = (answers st (item_id item) \<noteq> None)"
proof -
  from assms(2) have "activeScales scales ! currentScaleIndex st \<in> set (activeScales scales)"
    by simp
  then have "activeScales scales ! currentScaleIndex st \<in> set scales"
    by (simp add: activeScales_def)
  with assms(1,3) have "item_id item \<notin> set Object_prototype_names"
    by (auto simp: own_item_ids_def list_all_iff)
  then show ?thesis by (simp add: not_undefined_def)
qed

lemma all_answered_iff:
  assumes "own_item_ids scales" "step st = Survey"
  shows "continue_enabled scales st = all_answered scales st"
proof (cases "currentScaleIndex st < length (activeScales scales)")
  case True
  have "list_all (\<lambda>item. not_undefined (answers st) (item_id item))
           (filter active (items (activeScales scales ! currentScaleIndex st)))
        = list_all (\<lambda>item. answers st (item_id item) \<noteq> None)
           (filter active (items (activeScales scales ! currentScaleIndex st)))"
    using own_item_ids_shown [OF assms(1) True] by (auto simp: list_all_iff)
  with True assms(2) show ?thesis
    by (simp add: continue_enabled_def isCurrentScaleComplete_def all_answered_def Let_def)
next
  case False
  with assms(2) show ?thesis
    by (simp add: continue_enabled_def isCurrentScaleComplete_def all_answered_def)
qed

lemma on_event_survey_moves:
  assumes "own_item_ids scales" "step st = Survey"
      and "currentScaleIndex (on_event scales e st) \<noteq> currentScaleIndex st
           \<or> step (on_event scales e st) \<noteq> Survey"
  shows "e = ClickContinue \<and> all_answered scales st"
proof (cases e)
  case ClickContinue
  with assms show ?thesis
    by (cases "continue_enabled scales st") (simp_all add: all_answered_iff)
qed (use assms in \<open>auto simp: handleAnswerChange_def split: if_splits\<close>)

lemma click_advances:
  assumes "own_item_ids scales" "step st = Survey" "all_answered scales st"
  shows "on_event scales ClickContinue st =
           (if Suc (currentScaleIndex st) < length (activeScales scales)
            then st\<lparr> currentScaleIndex := Suc (currentScaleIndex st) \<rparr>
            else st\<lparr> step := Submitting \<rparr>)"
proof -
  have "(int (currentScaleIndex st) < int (length (activeScales scales)) - 1)
          = (Suc (currentScaleIndex st) < length (activeScales scales))" by auto
  with assms(2,3) show ?thesis
    by (simp add: all_answered_iff [OF assms(1,2)] handleContinue_def)
qed

lemma activeScales_have_active: "s \<in> set (activeScales scales) \<Longrightarrow> \<exists>i\<in>set (items s). active i"
  by (auto simp: activeScales_def list_ex_iff)

lemma nothing_answered:
  assumes "step st = Survey" "currentScaleIndex st < length (activeScales scales)"
      "answers st = Map.empty"
  shows "\<not> all_answered scales st"
proof -
  from assms(2) have "activeScales scales ! currentScaleIndex st \<in> set (activeScales scales)"
    by simp
  from activeScales_have_active [OF this] show ?thesis
    using assms(3) by (auto simp: all_answered_def list_all_iff)
qed

lemma on_event_answers_in_range:
  "answers_in_range st \<Longrightarrow> answers_in_range (on_event scales e st)"
  by (cases e)
    (auto simp: answers_in_range_def handleTimeUpdate_def handleAudioEnded_def handleAnswerChange_def
      handleContinue_def submit_answered_def fail_with_def radio_offered_def Let_def
      split: option.splits sum.splits if_splits)

lemma run_events_answers_in_range:
  "answers_in_range st \<Longrightarrow> answers_in_range (run_events scales es st)"
  by (induction es arbitrary: st) (simp_all add: on_event_answers_in_range)

lemma on_mount_answers: "answers (on_mount prolificPid answer initial_state) = Map.empty"
  by (simp add: on_mount_def fetchAudio_def fail_with_def initial_state_def split: option.splits)

text \<open>
  An item named like an inherited member counts as answered before any answer is
  recorded: with such an item alone in the scale the button is enabled at once.
\<close>

lemma inherited_name_counts_as_answered:
  "answers survey_state = Map.empty
   \<and> \<not> own_item_ids inherited_name_scale
   \<and> continue_enabled inherited_name_scale survey_state"
  by (simp add: survey_state_def audio_state_def initial_state_def own_item_ids_def
      inherited_name_scale_def Object_prototype_names_def continue_enabled_def
      isCurrentScaleComplete_def activeScales_def not_undefined_def)

text \<open>
  C9. For a configuration none of whose items is named like an inherited member, as
  the shipped one is: in the survey, an event changes the scale index or leaves the
  survey step only if it is the click on Continue with every active item of the
  current scale answered. Recorded answers stay within 1 to 7 over every sequence of
  events, and are so in every state the page reaches from its initial state. With no
  answer recorded the button of a scale is disabled; with every active item answered
  it is enabled and the click moves to the next scale, or to submitting from the last
  one. A scale of the configuration is among the active scales exactly when it has an
  active item, and the number of steps is the number of such scales plus one.
\<close>

theorem scale_advance_gate:
  assumes "own_item_ids scales"
  shows
  "(step st = Survey
      \<and> (currentScaleIndex (on_event scales e st) \<noteq> currentScaleIndex st
           \<or> step (on_event scales e st) \<noteq> Survey)
      \<longrightarrow> e = ClickContinue \<and> all_answered scales st)
   \<and> (answers_in_range st \<longrightarrow> answers_in_range (run_events scales es st))
   \<and> answers_in_range (run_events scales es (on_mount prolificPid answer initial_state))
   \<and> (step st = Survey \<and> currentScaleIndex st < length (activeScales scales)
        \<and> answers st = Map.empty \<longrightarrow> \<not> continue_enabled scales st)
   \<and> (step st = Survey \<and> all_answered scales st \<longrightarrow>
        continue_enabled scales st
        \<and> on_event scales ClickContinue st =
            (if Suc (currentScaleIndex st) < length (activeScales scales)
             then st\<lparr> currentScaleIndex := Suc (currentScaleIndex st) \<rparr>
             else st\<lparr> step := Submitting \<rparr>))
   \<and> (\<forall>s\<in>set scales. s \<in> set (activeScales scales) \<longleftrightarrow> (\<exists>i\<in>set (items s). active i))
   \<and> set (activeScales scales) \<subseteq> set scales
   \<and> totalSteps scales = length (filter (\<lambda>s. \<exists>i\<in>set (items s). active i) scales) + 1"
proof (intro conjI impI)
  show "e = ClickContinue" "all_answered scales st"
    if "step st = Survey
      \<and> (currentScaleIndex (on_event scales e st) \<noteq> currentScaleIndex st
           \<or> step (on_event scales e st) \<noteq> Survey)"
    using that on_event_survey_moves [OF assms, of st e] by blast+
  show "answers_in_range (run_events scales es st)" if "answers_in_range st"
    using that by (rule run_events_answers_in_range)
  show "answers_in_range (run_events scales es (on_mount prolificPid answer initial_state))"
    by (rule run_events_answers_in_range) (simp add: answers_in_range_def on_mount_answers)
  show "\<not> continue_enabled scales st"
    if "step st = Survey \<and> currentScaleIndex st < length (activeScales scales) \<and> answers st = Map.empty"
    using that nothing_answered [of st scales] by (simp add: all_answered_iff [OF assms])
  show "continue_enabled scales st" if "step st = Survey \<and> all_answered scales st"
    using that by (simp add: all_answered_iff [OF assms])
  show "on_event scales ClickContinue st =
            (if Suc (currentScaleIndex st) < length (activeScales scales)
             then st\<lparr> currentScaleIndex := Suc (currentScaleIndex st) \<rparr>
             else st\<lparr> step := Submitting \<rparr>)" if "step st = Survey \<and> all_answered scales st"
    using that click_advances [OF assms, of st] by blast
  show "\<forall>s\<in>set scales. s \<in> set (activeScales scales) \<longleftrightarrow> (\<exists>i\<in>set (items s). active i)"
    by (auto simp: activeScales_def list_ex_iff)
  show "set (activeScales scales) \<subseteq> set scales"
    by (auto simp: activeScales_def)
  show "totalSteps scales = length (filter (\<lambda>s. \<exists>i\<in>set (items s). active i) scales) + 1"
    by (simp add: totalSteps_def activeScales_def list_ex_iff)
qed

theorem scale_advance_gate_witness:
  "own_item_ids T1_ITEMS_scales
   \<and> step survey_state = Survey \<and> answers survey_state = Map.empty
   \<and> map scale_id (activeScales T1_ITEMS_scales)
       = [''relevance'', ''intrusiveness'', ''attitude'', ''purchase_intention'', ''privacy_concerns'']
   \<and> totalSteps T1_ITEMS_scales = 6
   \<and> \<not> continue_enabled T1_ITEMS_scales survey_state
   \<and> all_answered T1_ITEMS_scales (run_events T1_ITEMS_scales relevance_answers survey_state)
   \<and> continue_enabled T1_ITEMS_scales (run_events T1_ITEMS_scales relevance_answers survey_state)
   \<and> own_item_ids two_scales
   \<and> map scale_id (activeScales two_scales) = [''a'', ''c'']
   \<and> totalSteps two_scales = 3"
proof -
  let ?st = "run_events T1_ITEMS_scales relevance_answers survey_state"
  have own: "own_item_ids T1_ITEMS_scales"
    by (simp add: own_item_ids_def T1_ITEMS_scales_def act_def Object_prototype_names_def)
  have own2: "own_item_ids two_scales"
    by (simp add: own_item_ids_def two_scales_def Object_prototype_names_def)
  have a: "step survey_state = Survey" "answers survey_state = Map.empty"
    by (simp_all add: survey_state_def audio_state_def initial_state_def)
  have act: "map scale_id (activeScales T1_ITEMS_scales)
       = [''relevance'', ''intrusiveness'', ''attitude'', ''purchase_intention'', ''privacy_concerns'']"
    by (simp add: activeScales_def T1_ITEMS_scales_def act_def)
  then have "length (map scale_id (activeScales T1_ITEMS_scales)) = 5" by simp
  then have len: "length (activeScales T1_ITEMS_scales) = 5" by simp
  have idx: "currentScaleIndex survey_state < length (activeScales T1_ITEMS_scales)"
    by (simp add: len survey_state_def audio_state_def initial_state_def)
  have tot: "totalSteps T1_ITEMS_scales = 6" by (simp add: totalSteps_def len)
  have st: "?st = survey_state\<lparr> answers :=
      [''rel1'' \<mapsto> 4, ''rel2'' \<mapsto> 7, ''rel3'' \<mapsto> 1, ''rel4'' \<mapsto> 2, ''rel5'' \<mapsto> 5,
       ''rel6'' \<mapsto> 6, ''rel7'' \<mapsto> 3, ''rel8'' \<mapsto> 4, ''rel9'' \<mapsto> 4, ''rel10'' \<mapsto> 7] \<rparr>"
    by (simp add: relevance_answers_def radio_offered_def handleAnswerChange_def len
        activeScales_def T1_ITEMS_scales_def act_def survey_state_def audio_state_def
        initial_state_def)
  have b: "step ?st = Survey"
    by (simp add: st) (simp add: survey_state_def audio_state_def initial_state_def)
  have c: "all_answered T1_ITEMS_scales ?st"
    by (simp add: st) (simp add: all_answered_def activeScales_def T1_ITEMS_scales_def act_def
        survey_state_def audio_state_def initial_state_def)
  from scale_advance_gate [OF own, of survey_state ClickContinue "[]"] a idx
  have d: "\<not> continue_enabled T1_ITEMS_scales survey_state" by blast
  from scale_advance_gate [OF own, of ?st ClickContinue "[]"] b c
  have e: "continue_enabled T1_ITEMS_scales ?st" by blast
  have act2: "map scale_id (activeScales two_scales) = [''a'', ''c'']"
    by (simp add: activeScales_def two_scales_def)
  then have "length (map scale_id (activeScales two_scales)) = 2" by simp
  then have "length (activeScales two_scales) = 2" by simp
  then have tot2: "totalSteps two_scales = 3" by (simp add: totalSteps_def)
  from own a act tot d c e own2 act2 tot2 show ?thesis by blast
qed

section \<open>The low branch of the generation script\<close>

lemma is_prefix_refl: "is_prefix s s"
  by (induction s) simp_all

lemma contains_refl: "contains s s"
  by (cases s) (simp_all add: is_prefix_refl)

lemma lowFileExists_iff:
  "lowFileExists env w \<longleftrightarrow> list_error env = None \<and> ''low.mp3'' \<in> fst ` set (bucket_of w)"
proof (cases "list_error env")
  case None
  have "list_ex (\<lambda>name. name = ''low.mp3'') (bucket_list ''low.mp3'' (bucket_of w))
          \<longleftrightarrow> ''low.mp3'' \<in> fst ` set (bucket_of w)"
    unfolding bucket_list_def list_ex_iff
    using contains_refl [of "''low.mp3''"] by auto
  with None show ?thesis by (simp add: lowFileExists_def existingFile_def)
next
  case (Some msg)
  then show ?thesis by (simp add: lowFileExists_def existingFile_def)
qed

lemma bucket_put_names: "fst ` set (bucket_put path buffer b) = insert path (fst ` set b)"
proof (cases "list_ex (\<lambda>f. fst f = path) b")
  case True
  have "map fst (map (\<lambda>f. if fst f = path then (path, buffer) else f) b) = map fst b"
    by (induction b) auto
  then have "fst ` set (map (\<lambda>f. if fst f = path then (path, buffer) else f) b) = fst ` set b"
    by (metis set_map)
  moreover from True have "path \<in> fst ` set b" by (auto simp: list_ex_iff)
  ultimately show ?thesis using True by (auto simp: bucket_put_def)
next
  case False
  then show ?thesis by (simp add: bucket_put_def)
qed

lemma generateAudio_world:
  "snd (generateAudio env text w) = w\<lparr> tts_calls := Suc (tts_calls w) \<rparr>"
  by (simp add: generateAudio_def Let_def split: sum.splits prod.splits)

lemma generateAudio_ok:
  "(\<exists>audio. fst (generateAudio env text w) = Inr audio) \<longleftrightarrow> tts_ok env w text"
  by (auto simp: generateAudio_def tts_ok_def Let_def split: sum.splits prod.splits)

lemma uploadAudio_world:
  "snd (uploadAudio env path buffer w) =
     (case put env (upload_calls w) path of
        Some msg \<Rightarrow> w\<lparr> upload_calls := Suc (upload_calls w) \<rparr>
      | None \<Rightarrow> w\<lparr> upload_calls := Suc (upload_calls w),
                    bucket_of := bucket_put path buffer (bucket_of w) \<rparr>)"
  by (simp add: uploadAudio_def Let_def split: option.splits)

lemma uploadAudio_ok:
  "(\<exists>u. fst (uploadAudio env path buffer w) = Inr u) \<longleftrightarrow> put env (upload_calls w) path = None"
  by (auto simp: uploadAudio_def Let_def split: option.splits)

lemma pending_low_low_cols: "\<not> pending_low (low_cols now r)"
  by (simp add: pending_low_def low_cols_def)

lemma db_update_none: "\<forall>r\<in>set tbl. \<not> sel r \<Longrightarrow> db_update sel cols tbl = tbl"
  by (simp add: db_update_def map_idI)

lemma db_update_pending_low_done: "r \<in> set (db_update pending_low (low_cols now) tbl) \<Longrightarrow> \<not> pending_low r"
  by (auto simp: db_update_def pending_low_low_cols)

text \<open>The four ways a run of the low branch can go.\<close>

lemma processLowCondition_cases:
  "processLowCondition env w =
     (if lowFileExists env w then update_low env w
      else if \<not> tts_ok env w TEXTS_low then (0, w\<lparr> tts_calls := Suc (tts_calls w) \<rparr>)
      else if put env (upload_calls w) ''low.mp3'' \<noteq> None
        then (0, w\<lparr> tts_calls := Suc (tts_calls w), upload_calls := Suc (upload_calls w) \<rparr>)
      else update_low env
             (snd (uploadAudio env ''low.mp3'' (projr (tts env (tts_calls w) TEXTS_low))
                (w\<lparr> tts_calls := Suc (tts_calls w) \<rparr>))))"
  by (auto simp: processLowCondition_def generateAudio_def uploadAudio_def tts_ok_def Let_def
      split: sum.splits option.splits prod.splits)

lemma update_low_frame:
  "bucket_of (snd (update_low env w)) = bucket_of w
   \<and> tts_calls (snd (update_low env w)) = tts_calls w
   \<and> upload_calls (snd (update_low env w)) = upload_calls w"
  by (simp add: update_low_def split: option.splits)

lemma update_low_failed:
  "low_update_error env \<noteq> None \<Longrightarrow> update_low env w = (0, w)"
  by (auto simp: update_low_def)

lemma update_low_done:
  "low_update_error env = None \<Longrightarrow>
     update_low env w =
       (length (filter pending_low (participants_of w)),
        w\<lparr> participants_of := db_update pending_low (low_cols (clock env (tts_calls w))) (participants_of w) \<rparr>)"
  by (simp add: update_low_def)

lemma update_low_nothing_pending:
  assumes "\<forall>r\<in>set (participants_of w). \<not> pending_low r"
  shows "update_low env w = (0, w)"
proof (cases "low_update_error env")
  case None
  from assms have "filter pending_low (participants_of w) = []" by (simp add: filter_empty_conv)
  with None assms show ?thesis by (simp add: update_low_done db_update_none)
next
  case (Some msg)
  then show ?thesis by (simp add: update_low_failed)
qed

lemma low_run_before_update:
  assumes "low_artifact_ready env w"
  shows "\<exists>w1. processLowCondition env w = update_low env w1
            \<and> participants_of w1 = participants_of w
            \<and> tts_calls w1 \<le> Suc (tts_calls w)
            \<and> ''low.mp3'' \<in> fst ` set (bucket_of w1)"
proof (cases "lowFileExists env w")
  case True
  then have "processLowCondition env w = update_low env w" "''low.mp3'' \<in> fst ` set (bucket_of w)"
    by (simp_all add: processLowCondition_cases lowFileExists_iff)
  then show ?thesis by (intro exI [of _ w]) simp
next
  case False
  let ?w1 = "snd (uploadAudio env ''low.mp3'' (projr (tts env (tts_calls w) TEXTS_low))
                (w\<lparr> tts_calls := Suc (tts_calls w) \<rparr>))"
  from False assms have ok: "tts_ok env w TEXTS_low" "put env (upload_calls w) ''low.mp3'' = None"
    by (simp_all add: low_artifact_ready_def)
  with False have "processLowCondition env w = update_low env ?w1"
    by (simp add: processLowCondition_cases)
  moreover from ok(2) have "participants_of ?w1 = participants_of w"
    by (simp add: uploadAudio_world)
  moreover from ok(2) have "''low.mp3'' \<in> fst ` set (bucket_of ?w1)"
    by (simp add: uploadAudio_world bucket_put_names)
  moreover from ok(2) have "tts_calls ?w1 \<le> Suc (tts_calls w)"
    by (simp add: uploadAudio_world)
  ultimately show ?thesis by blast
qed

lemma low_run_settled:
  assumes "low_run_succeeds env w"
  shows "''low.mp3'' \<in> fst ` set (bucket_of (snd (processLowCondition env w)))
       \<and> (\<forall>r\<in>set (participants_of (snd (processLowCondition env w))). \<not> pending_low r)"
proof -
  from assms have "low_artifact_ready env w" and upd: "low_update_error env = None"
    by (simp_all add: low_run_succeeds_def)
  from low_run_before_update [OF this(1)] obtain w1 where
    w1: "processLowCondition env w = update_low env w1" "''low.mp3'' \<in> fst ` set (bucket_of w1)"
    by blast
  from w1(2) have "''low.mp3'' \<in> fst ` set (bucket_of (snd (update_low env w1)))"
    by (simp add: update_low_frame)
  moreover have "\<forall>r\<in>set (participants_of (snd (update_low env w1))). \<not> pending_low r"
    by (auto simp: update_low_done [OF upd] dest: db_update_pending_low_done)
  ultimately show ?thesis by (simp add: w1(1))
qed

lemma low_rerun_noop:
  assumes "low_run_succeeds env w" "list_error env2 = None"
  shows "processLowCondition env2 (snd (processLowCondition env w))
           = (0, snd (processLowCondition env w))"
  using low_run_settled [OF assms(1)] assms(2)
  by (simp add: processLowCondition_cases lowFileExists_iff update_low_nothing_pending)

text \<open>
  After a run that succeeds, a run whose listing is answered with an error asks the
  provider once more, whatever else is answered, and leaves the table as it is.
\<close>

lemma low_run_listing_error:
  assumes "list_error env2 = Some msg" "\<forall>r\<in>set (participants_of w0). \<not> pending_low r"
  shows "tts_calls (snd (processLowCondition env2 w0)) = Suc (tts_calls w0)
       \<and> participants_of (snd (processLowCondition env2 w0)) = participants_of w0"
proof -
  let ?w1 = "snd (uploadAudio env2 ''low.mp3'' (projr (tts env2 (tts_calls w0) TEXTS_low))
                (w0\<lparr> tts_calls := Suc (tts_calls w0) \<rparr>))"
  have w1: "participants_of ?w1 = participants_of w0" "tts_calls ?w1 = Suc (tts_calls w0)"
    by (simp_all add: uploadAudio_world split: option.splits)
  with assms(2) have "update_low env2 ?w1 = (0, ?w1)"
    by (intro update_low_nothing_pending) simp
  moreover from assms(1) have "\<not> lowFileExists env2 w0" by (simp add: lowFileExists_iff)
  ultimately show ?thesis
    using w1 by (simp add: processLowCondition_cases)
qed

lemma low_rerun_listing_error:
  assumes "low_run_succeeds env w" "list_error env2 = Some msg"
  shows "tts_calls (snd (processLowCondition env2 (snd (processLowCondition env w))))
           = Suc (tts_calls (snd (processLowCondition env w)))
       \<and> participants_of (snd (processLowCondition env2 (snd (processLowCondition env w))))
           = participants_of (snd (processLowCondition env w))"
proof -
  from low_run_settled [OF assms(1)]
  have "\<forall>r\<in>set (participants_of (snd (processLowCondition env w))). \<not> pending_low r" by simp
  with assms(2) show ?thesis by (rule low_run_listing_error)
qed

lemma low_run_rows:
  assumes "low_run_succeeds env w" "i < length (participants_of w)"
  shows "participants_of (snd (processLowCondition env w)) ! i =
           (if pending_low (participants_of w ! i)
            then low_cols (clock env (tts_calls (snd (processLowCondition env w)))) (participants_of w ! i)
            else participants_of w ! i)"
proof -
  from assms have "low_artifact_ready env w" and upd: "low_update_error env = None"
    by (simp_all add: low_run_succeeds_def)
  from low_run_before_update [OF this(1)] obtain w1 where
    w1: "processLowCondition env w = update_low env w1" "participants_of w1 = participants_of w"
    by blast
  from assms(2) show ?thesis
    by (simp add: w1 update_low_done [OF upd] db_update_def)
qed

lemma low_run_count:
  assumes "low_run_succeeds env w"
  shows "fst (processLowCondition env w) = length (filter pending_low (participants_of w))
       \<and> length (participants_of (snd (processLowCondition env w))) = length (participants_of w)"
proof -
  from assms have "low_artifact_ready env w" and upd: "low_update_error env = None"
    by (simp_all add: low_run_succeeds_def)
  from low_run_before_update [OF this(1)] obtain w1 where
    w1: "processLowCondition env w = update_low env w1" "participants_of w1 = participants_of w"
    by blast
  show ?thesis by (simp add: w1 update_low_done [OF upd] db_update_def)
qed

lemma low_run_calls:
  "tts_calls (snd (processLowCondition env w)) \<le> Suc (tts_calls w)
   \<and> upload_calls (snd (processLowCondition env w)) \<le> Suc (upload_calls w)
   \<and> tts_calls w \<le> tts_calls (snd (processLowCondition env w))
   \<and> (lowFileExists env w \<longrightarrow> tts_calls (snd (processLowCondition env w)) = tts_calls w
         \<and> upload_calls (snd (processLowCondition env w)) = upload_calls w)"
  by (simp add: processLowCondition_cases update_low_frame uploadAudio_world split: option.splits)

lemma low_run_creation_failed:
  assumes "\<not> low_artifact_ready env w"
  shows "fst (processLowCondition env w) = 0
       \<and> participants_of (snd (processLowCondition env w)) = participants_of w"
  using assms by (auto simp: low_artifact_ready_def processLowCondition_cases)

text \<open>
  A run of the low branch sends at most one request to the provider and at most one
  upload, whatever the table holds. After a run that succeeds the table has the same
  rows at the same places, the count returned is the number of rows that were pending
  low, each of these has status generated, the path \<open>low.mp3\<close> and no error, and every
  other row is as it was; running the branch again on the result returns 0 and leaves
  the table, the bucket and the number of provider requests as they are, provided the
  listing of that second run is answered. When the artifact is neither listed nor
  created, the run returns 0 and the table is as it was.
\<close>

lemma low_branch_when_listing_answers:
  "tts_calls (snd (processLowCondition env w)) \<le> Suc (tts_calls w)
   \<and> upload_calls (snd (processLowCondition env w)) \<le> Suc (upload_calls w)
   \<and> (low_run_succeeds env w \<longrightarrow>
        length (participants_of (snd (processLowCondition env w))) = length (participants_of w)
        \<and> fst (processLowCondition env w) = length (filter pending_low (participants_of w))
        \<and> (\<forall>i<length (participants_of w).
              if pending_low (participants_of w ! i)
              then audio_status (participants_of (snd (processLowCondition env w)) ! i) = Some ''generated''
                 \<and> audio_path (participants_of (snd (processLowCondition env w)) ! i) = Some ''low.mp3''
                 \<and> audio_error (participants_of (snd (processLowCondition env w)) ! i) = None
                 \<and> prolific_pid (participants_of (snd (processLowCondition env w)) ! i)
                     = prolific_pid (participants_of w ! i)
              else participants_of (snd (processLowCondition env w)) ! i = participants_of w ! i)
        \<and> (\<forall>env2. list_error env2 = None \<longrightarrow>
              processLowCondition env2 (snd (processLowCondition env w))
                = (0, snd (processLowCondition env w))))
   \<and> (\<not> low_artifact_ready env w \<longrightarrow>
        fst (processLowCondition env w) = 0
        \<and> participants_of (snd (processLowCondition env w)) = participants_of w)"
proof (intro conjI impI allI)
  show "tts_calls (snd (processLowCondition env w)) \<le> Suc (tts_calls w)"
    "upload_calls (snd (processLowCondition env w)) \<le> Suc (upload_calls w)"
    using low_run_calls [of env w] by simp_all
  show "fst (processLowCondition env w) = 0" if "\<not> low_artifact_ready env w"
    using low_run_creation_failed [OF that] by simp
  show "participants_of (snd (processLowCondition env w)) = participants_of w"
    if "\<not> low_artifact_ready env w"
    using low_run_creation_failed [OF that] by simp
next
  assume ok: "low_run_succeeds env w"
  show "length (participants_of (snd (processLowCondition env w))) = length (participants_of w)"
    "fst (processLowCondition env w) = length (filter pending_low (participants_of w))"
    using low_run_count [OF ok] by simp_all
  show "processLowCondition env2 (snd (processLowCondition env w))
          = (0, snd (processLowCondition env w))" if "list_error env2 = None" for env2
    using ok that by (rule low_rerun_noop)
  fix i assume "i < length (participants_of w)"
  from low_run_rows [OF ok this]
  show "if pending_low (participants_of w ! i)
        then audio_status (participants_of (snd (processLowCondition env w)) ! i) = Some ''generated''
           \<and> audio_path (participants_of (snd (processLowCondition env w)) ! i) = Some ''low.mp3''
           \<and> audio_error (participants_of (snd (processLowCondition env w)) ! i) = None
           \<and> prolific_pid (participants_of (snd (processLowCondition env w)) ! i)
               = prolific_pid (participants_of w ! i)
        else participants_of (snd (processLowCondition env w)) ! i = participants_of w ! i"
    by (simp add: low_cols_def)
qed

lemma low_first_run:
  "processLowCondition all_fine quiet_world =
     (2, \<lparr> participants_of =
             [ low_cols ''t4'' ((new_participant ''P1'')\<lparr> condition := Some ''low'' \<rparr>),
               (new_participant ''P2'')\<lparr> condition := Some ''medium'' \<rparr>,
               low_cols ''t4''
                 ((new_participant ''P4'')\<lparr> condition := Some ''low'', audio_error := Some ''old'' \<rparr>) ],
           bucket_of = [(''low.mp3'', [7, 7])], tts_calls = 1, upload_calls = 1 \<rparr>)"
  by (simp add: processLowCondition_def lowFileExists_def existingFile_def bucket_list_def
      generateAudio_def uploadAudio_def update_low_def all_fine_def quiet_world_def Let_def
      db_update_def pending_low_def new_participant_def bucket_put_def)

text \<open>
  C4 at a table with two pending low rows and an empty bucket. The first run, with
  every request answered, creates \<open>low.mp3\<close> with one provider request and one upload
  and updates both rows. A second run whose listing is answered finds the file and
  does nothing. A second run whose listing is answered with an error finds no data,
  takes the file as missing, and asks the provider and uploads a second time: the
  script reads no error from the listing.
\<close>

theorem low_rerun_failed_listing:
  "fst (processLowCondition all_fine quiet_world) = 2
   \<and> map audio_path (participants_of (snd (processLowCondition all_fine quiet_world)))
       = [Some ''low.mp3'', None, Some ''low.mp3'']
   \<and> map fst (bucket_of (snd (processLowCondition all_fine quiet_world))) = [''low.mp3'']
   \<and> tts_calls (snd (processLowCondition all_fine quiet_world)) = 1
   \<and> upload_calls (snd (processLowCondition all_fine quiet_world)) = 1
   \<and> tts_calls (snd (processLowCondition all_fine (snd (processLowCondition all_fine quiet_world))))
       = 1
   \<and> tts_calls (snd (processLowCondition listing_fails (snd (processLowCondition all_fine quiet_world))))
       = 2
   \<and> upload_calls (snd (processLowCondition listing_fails (snd (processLowCondition all_fine quiet_world))))
       = 2"
  unfolding low_first_run
  by (simp add: processLowCondition_def lowFileExists_def existingFile_def bucket_list_def
      generateAudio_def uploadAudio_def update_low_def all_fine_def listing_fails_def Let_def
      db_update_def pending_low_def low_cols_def new_participant_def bucket_put_def)

section \<open>The medium and high branch of the generation script\<close>

lemma filter_other_pid:
  assumes "\<And>r. prolific_pid (cols r) = prolific_pid r" "pid \<noteq> pid'"
  shows "filter (has_pid pid') (db_update (has_pid pid) cols tbl) = filter (has_pid pid') tbl"
  using assms by (induction tbl) (auto simp: db_update_def has_pid_def)

lemma db_single_other_pid:
  assumes "\<And>r. prolific_pid (cols r) = prolific_pid r" "pid \<noteq> pid'"
  shows "db_single pid' (db_update (has_pid pid) cols tbl) = db_single pid' tbl"
  by (simp add: db_single_def filter_other_pid [OF assms])

lemma filter_unique_pid:
  "distinct (map prolific_pid tbl) \<Longrightarrow> q \<in> set tbl \<Longrightarrow> filter (has_pid (prolific_pid q)) tbl = [q]"
proof (induction tbl)
  case Nil
  then show ?case by simp
next
  case (Cons r tbl)
  show ?case
  proof (cases "q = r")
    case True
    from Cons.prems(1) have "\<forall>x\<in>set tbl. prolific_pid x \<noteq> prolific_pid r"
      by (metis distinct.simps(2) imageI list.simps(9) set_map)
    then have "filter (has_pid (prolific_pid r)) tbl = []"
      by (simp add: filter_empty_conv has_pid_def)
    moreover have "has_pid (prolific_pid r) r" by (simp add: has_pid_def)
    ultimately show ?thesis using True by simp
  next
    case False
    with Cons.prems have q: "q \<in> set tbl" and d: "distinct (map prolific_pid tbl)" by auto
    from Cons.prems(1) q have "prolific_pid r \<noteq> prolific_pid q" by auto
    then have "\<not> has_pid (prolific_pid q) r" by (simp add: has_pid_def)
    with Cons.IH [OF d q] show ?thesis by simp
  qed
qed

lemma db_single_unique_pid:
  "distinct (map prolific_pid tbl) \<Longrightarrow> q \<in> set tbl \<Longrightarrow> db_single (prolific_pid q) tbl = Some q"
  by (simp add: db_single_def filter_unique_pid)

lemma error_cols_pid: "prolific_pid (error_cols m r) = prolific_pid r"
  by (simp add: error_cols_def)

lemma generated_cols_pid: "prolific_pid (generated_cols path now r) = prolific_pid r"
  by (simp add: generated_cols_def)

lemma generateAudio_participants:
  "participants_of (snd (generateAudio env text w)) = participants_of w"
  by (simp add: generateAudio_def Let_def split: sum.splits prod.splits)

lemma generateAudio_thrown:
  "fst (generateAudio env text w) = Inl err \<Longrightarrow> message_of err \<noteq> []"
  by (auto simp: generateAudio_def message_of_def Let_def split: sum.splits prod.splits)

lemma uploadAudio_participants:
  "participants_of (snd (uploadAudio env path buffer w)) = participants_of w"
  by (simp add: uploadAudio_def Let_def split: option.splits)

lemma uploadAudio_thrown:
  "fst (uploadAudio env path buffer w) = Inl err \<Longrightarrow> message_of err \<noteq> []"
  by (auto simp: uploadAudio_def message_of_def Let_def split: option.splits)

lemma process_one_unfold:
  "process_one env p w =
     (case fst (generateAudio env (if condition p = Some ''medium'' then TEXTS_medium else TEXTS_high) w) of
        Inl err \<Rightarrow> (False, mark_error env (prolific_pid p) err
                      (snd (generateAudio env (if condition p = Some ''medium'' then TEXTS_medium else TEXTS_high) w)))
      | Inr audioBuffer \<Rightarrow>
          (case fst (uploadAudio env (prolific_pid p @ ''.mp3'') audioBuffer
                  (snd (generateAudio env (if condition p = Some ''medium'' then TEXTS_medium else TEXTS_high) w))) of
             Inl err \<Rightarrow> (False, mark_error env (prolific_pid p) err
                 (snd (uploadAudio env (prolific_pid p @ ''.mp3'') audioBuffer
                  (snd (generateAudio env (if condition p = Some ''medium'' then TEXTS_medium else TEXTS_high) w)))))
           | Inr u \<Rightarrow> (True, mark_generated env (prolific_pid p) (prolific_pid p @ ''.mp3'')
                 (snd (uploadAudio env (prolific_pid p @ ''.mp3'') audioBuffer
                  (snd (generateAudio env (if condition p = Some ''medium'' then TEXTS_medium else TEXTS_high) w)))))))"
  unfolding process_one_def Let_def
  by (simp only: split_beta prod.case_eq_if sum.case_eq_if cong: sum.case_cong)

text \<open>
  When the store applies the updates, one pass of the loop body writes one of two sets
  of columns to the rows of its identifier.
\<close>

lemma process_one_cases:
  assumes upd: "updates_applied env"
  shows
  "(fst (process_one env p w)
      \<and> (\<exists>now. participants_of (snd (process_one env p w)) =
            db_update (has_pid (prolific_pid p)) (generated_cols (prolific_pid p @ ''.mp3'') now)
              (participants_of w)))
   \<or> (\<not> fst (process_one env p w)
      \<and> (\<exists>m. m \<noteq> [] \<and> participants_of (snd (process_one env p w)) =
            db_update (has_pid (prolific_pid p)) (error_cols m) (participants_of w)))"
proof -
  note u = upd [unfolded updates_applied_def, rule_format]
  let ?text = "if condition p = Some ''medium'' then TEXTS_medium else TEXTS_high"
  let ?w1 = "snd (generateAudio env ?text w)"
  show ?thesis
  proof (cases "fst (generateAudio env ?text w)")
    case (Inl err)
    then have "process_one env p w = (False, mark_error env (prolific_pid p) err ?w1)"
      by (simp only: process_one_unfold sum.case)
    moreover have "message_of err \<noteq> []" using Inl by (rule generateAudio_thrown)
    ultimately show ?thesis
      by (auto simp: mark_error_def u generateAudio_participants)
  next
    case (Inr audio)
    let ?w2 = "snd (uploadAudio env (prolific_pid p @ ''.mp3'') audio ?w1)"
    show ?thesis
    proof (cases "fst (uploadAudio env (prolific_pid p @ ''.mp3'') audio ?w1)")
      case (Inl err)
      with Inr have "process_one env p w = (False, mark_error env (prolific_pid p) err ?w2)"
        by (simp only: process_one_unfold sum.case)
      moreover have "message_of err \<noteq> []" using Inl by (rule uploadAudio_thrown)
      ultimately show ?thesis
        by (auto simp: mark_error_def u generateAudio_participants uploadAudio_participants)
    next
      case (Inr u)
      with \<open>fst (generateAudio env ?text w) = Inr audio\<close>
      have "process_one env p w
              = (True, mark_generated env (prolific_pid p) (prolific_pid p @ ''.mp3'') ?w2)"
        by (simp only: process_one_unfold sum.case)
      then show ?thesis
        by (auto simp: mark_generated_def u generateAudio_participants uploadAudio_participants)
    qed
  qed
qed


lemma process_one_row:
  assumes upd: "updates_applied env"
      and row: "db_single (prolific_pid p) (participants_of w) = Some p"
  shows "\<exists>r'. db_single (prolific_pid p) (participants_of (snd (process_one env p w))) = Some r'
            \<and> ended_generated p r' = fst (process_one env p w)
            \<and> ended_error p r' = (\<not> fst (process_one env p w))"
  using process_one_cases [OF upd, of p w]
proof (elim disjE conjE exE)
  fix now
  assume "fst (process_one env p w)"
    "participants_of (snd (process_one env p w)) =
       db_update (has_pid (prolific_pid p)) (generated_cols (prolific_pid p @ ''.mp3'') now)
         (participants_of w)"
  then show ?thesis
    using row
    by (simp add: db_single_db_update [OF generated_cols_pid] ended_generated_def ended_error_def
        generated_cols_def)
next
  fix m :: string
  assume "\<not> fst (process_one env p w)" "m \<noteq> []"
    "participants_of (snd (process_one env p w)) =
       db_update (has_pid (prolific_pid p)) (error_cols m) (participants_of w)"
  then show ?thesis
    using row
    by (simp add: db_single_db_update [OF error_cols_pid] ended_generated_def ended_error_def
        error_cols_def)
qed

lemma process_one_other:
  assumes upd: "updates_applied env" and neq: "pid' \<noteq> prolific_pid p"
  shows "db_single pid' (participants_of (snd (process_one env p w))) = db_single pid' (participants_of w)"
  using process_one_cases [OF upd, of p w] neq
  by (auto simp: db_single_other_pid [OF generated_cols_pid] db_single_other_pid [OF error_cols_pid])

lemma process_all_step:
  "process_all env (p # ps) (g, e) w =
     process_all env ps (if fst (process_one env p w) then (Suc g, e) else (g, Suc e))
       (snd (process_one env p w))"
  by (cases "process_one env p w") (auto split: bool.splits)

lemma process_all_other:
  assumes upd: "updates_applied env"
  shows "pid' \<notin> prolific_pid ` set ps \<Longrightarrow>
     db_single pid' (participants_of (snd (process_all env ps c w))) = db_single pid' (participants_of w)"
proof (induction ps arbitrary: c w)
  case Nil
  then show ?case by simp
next
  case (Cons p ps)
  obtain g e where c: "c = (g, e)" by (cases c)
  from Cons.prems have "pid' \<noteq> prolific_pid p" "pid' \<notin> prolific_pid ` set ps" by auto
  then show ?case
    unfolding c process_all_step by (simp add: Cons.IH process_one_other [OF upd])
qed

lemma process_all_counts:
  "fst (fst (process_all env ps (g, e) w)) + snd (fst (process_all env ps (g, e) w))
     = g + e + length ps"
proof (induction ps arbitrary: g e w)
  case Nil
  then show ?case by simp
next
  case (Cons p ps)
  show ?case unfolding process_all_step by (simp add: Cons.IH)
qed

lemma process_all_rows:
  assumes upd: "updates_applied env"
      and "distinct (map prolific_pid ps)"
      and "\<forall>q\<in>set ps. db_single (prolific_pid q) (participants_of w) = Some q"
  shows "\<forall>q\<in>set ps. \<exists>r'.
            db_single (prolific_pid q) (participants_of (snd (process_all env ps c w))) = Some r'
            \<and> ended_one_way q r'"
  using assms(2,3)
proof (induction ps arbitrary: c w)
  case Nil
  then show ?case by simp
next
  case (Cons p ps)
  obtain g e where c: "c = (g, e)" by (cases c)
  let ?w1 = "snd (process_one env p w)"
  let ?c1 = "if fst (process_one env p w) then (Suc g, e) else (g, Suc e)"
  from Cons.prems(1) have notin: "prolific_pid p \<notin> prolific_pid ` set ps"
    and dist: "distinct (map prolific_pid ps)" by auto
  have rest: "\<forall>q\<in>set ps. db_single (prolific_pid q) (participants_of ?w1) = Some q"
  proof
    fix q assume q: "q \<in> set ps"
    with notin have "prolific_pid q \<noteq> prolific_pid p" by (metis imageI)
    from process_one_other [OF upd this] Cons.prems(2) q show
      "db_single (prolific_pid q) (participants_of ?w1) = Some q" by simp
  qed
  from Cons.prems(2) have "db_single (prolific_pid p) (participants_of w) = Some p" by simp
  from process_one_row [OF upd this] obtain r' where
    r': "db_single (prolific_pid p) (participants_of ?w1) = Some r'" "ended_one_way p r'"
    by (auto simp: ended_one_way_def)
  from process_all_other [OF upd notin] r'(1)
  have "db_single (prolific_pid p) (participants_of (snd (process_all env ps ?c1 ?w1))) = Some r'"
    by simp
  with r'(2) Cons.IH [OF dist rest, of ?c1] show ?case
    unfolding c process_all_step by auto
qed

lemma process_all_generated:
  assumes upd: "updates_applied env"
      and "distinct (map prolific_pid ps)"
      and "\<forall>q\<in>set ps. db_single (prolific_pid q) (participants_of w) = Some q"
  shows "fst (fst (process_all env ps (g, e) w))
           = g + length (filter (ended_generated_in (participants_of (snd (process_all env ps (g, e) w)))) ps)
       \<and> snd (fst (process_all env ps (g, e) w))
           = e + length (filter (ended_error_in (participants_of (snd (process_all env ps (g, e) w)))) ps)"
  using assms(2,3)
proof (induction ps arbitrary: g e w)
  case Nil
  then show ?case by simp
next
  case (Cons p ps)
  let ?w1 = "snd (process_one env p w)"
  let ?g1 = "if fst (process_one env p w) then Suc g else g"
  let ?e1 = "if fst (process_one env p w) then e else Suc e"
  let ?W = "snd (process_all env ps (?g1, ?e1) ?w1)"
  have step: "process_all env (p # ps) (g, e) w = process_all env ps (?g1, ?e1) ?w1"
    by (cases "fst (process_one env p w)") (simp_all only: process_all_step if_True if_False)
  from Cons.prems(1) have notin: "prolific_pid p \<notin> prolific_pid ` set ps"
    and dist: "distinct (map prolific_pid ps)" by auto
  have rest: "\<forall>q\<in>set ps. db_single (prolific_pid q) (participants_of ?w1) = Some q"
  proof
    fix q assume q: "q \<in> set ps"
    with notin have "prolific_pid q \<noteq> prolific_pid p" by (metis imageI)
    from process_one_other [OF upd this] Cons.prems(2) q show
      "db_single (prolific_pid q) (participants_of ?w1) = Some q" by simp
  qed
  from Cons.prems(2) have "db_single (prolific_pid p) (participants_of w) = Some p" by simp
  from process_one_row [OF upd this] obtain r' where
    r': "db_single (prolific_pid p) (participants_of ?w1) = Some r'"
      "ended_generated p r' = fst (process_one env p w)"
      "ended_error p r' = (\<not> fst (process_one env p w))"
    by blast
  from process_all_other [OF upd notin] r'(1)
  have "db_single (prolific_pid p) (participants_of ?W) = Some r'" by simp
  with r'(2,3) have head: "ended_generated_in (participants_of ?W) p = fst (process_one env p w)"
    "ended_error_in (participants_of ?W) p = (\<not> fst (process_one env p w))"
    by (simp_all add: ended_generated_in_def ended_error_in_def)
  from Cons.IH [OF dist rest, of ?g1 ?e1] head show ?case
    unfolding step by simp
qed


lemma fetch_batch_subset: "set (fetch_batch tbl) \<subseteq> set tbl"
  by (auto simp: fetch_batch_def dest: in_set_takeD)

lemma fetch_batch_distinct:
  "distinct (map prolific_pid tbl) \<Longrightarrow> distinct (map prolific_pid (fetch_batch tbl))"
proof -
  assume "distinct (map prolific_pid tbl)"
  then have "distinct (take BATCH_SIZE (map prolific_pid (filter pending_medium_high tbl)))"
    by (intro distinct_take distinct_map_filter)
  then show ?thesis by (simp only: fetch_batch_def take_map)
qed

lemma processed_subset: "p \<in> set (processed env w) \<Longrightarrow> p \<in> set (participants_of w)"
proof (cases "fetch_error env")
  case None
  assume "p \<in> set (processed env w)"
  with None have "p \<in> set (fetch_batch (participants_of w))" by (simp add: processed_def)
  with fetch_batch_subset [of "participants_of w"] show ?thesis by (rule subsetD)
next
  case (Some msg)
  assume "p \<in> set (processed env w)"
  with Some show ?thesis by (simp add: processed_def)
qed

lemma fetch_batch_pending: "p \<in> set (fetch_batch tbl) \<Longrightarrow> pending_medium_high p"
  by (auto simp: fetch_batch_def dest: in_set_takeD)

lemma processMediumHighConditions_eq:
  "processMediumHighConditions env w = process_all env (processed env w) (0, 0) w"
  by (simp add: processMediumHighConditions_def processed_def Let_def split: option.splits)

lemma processed_unique_paths:
  assumes "distinct (map prolific_pid (participants_of w))"
      and "p \<in> set (processed env w)" "q \<in> set (processed env w)"
      and "prolific_pid p @ ''.mp3'' = prolific_pid q @ ''.mp3''"
  shows "p = q"
proof -
  from assms(2) have "p \<in> set (participants_of w)" by (rule processed_subset)
  with assms(1) have p: "db_single (prolific_pid p) (participants_of w) = Some p"
    by (rule db_single_unique_pid)
  from assms(3) have "q \<in> set (participants_of w)" by (rule processed_subset)
  with assms(1) have q: "db_single (prolific_pid q) (participants_of w) = Some q"
    by (rule db_single_unique_pid)
  from assms(4) have "prolific_pid p = prolific_pid q" by simp
  with p have "db_single (prolific_pid q) (participants_of w) = Some p" by simp
  with q show ?thesis by simp
qed

lemma processed_rows:
  assumes "distinct (map prolific_pid (participants_of w))"
  shows "distinct (map prolific_pid (processed env w))
       \<and> (\<forall>q\<in>set (processed env w). db_single (prolific_pid q) (participants_of w) = Some q)"
proof
  show "distinct (map prolific_pid (processed env w))"
    using fetch_batch_distinct [OF assms] by (simp add: processed_def split: option.splits)
  show "\<forall>q\<in>set (processed env w). db_single (prolific_pid q) (participants_of w) = Some q"
  proof
    fix q assume "q \<in> set (processed env w)"
    then have "q \<in> set (participants_of w)" by (rule processed_subset)
    with assms show "db_single (prolific_pid q) (participants_of w) = Some q"
      by (rule db_single_unique_pid)
  qed
qed

lemma processed_bounded: "length (processed env w) \<le> 50"
  by (simp add: processed_def fetch_batch_def BATCH_SIZE_def split: option.splits)

lemma processed_pending: "p \<in> set (processed env w) \<Longrightarrow> pending_medium_high p"
  by (cases "fetch_error env") (simp_all add: processed_def fetch_batch_pending)

text \<open>
  On a table whose identifiers are distinct and with a store that applies the updates
  of single rows, a run of the medium and high branch processes at most 50 rows, all
  of them pending medium or high rows; the two counts it returns add up to the number
  of rows processed, the first being the number of processed rows that ended generated
  and the second the number that ended in error. Each processed row ends the run in
  exactly one of two ways, whatever happened to the rows before it: generated, with
  the path made of its identifier and \<open>.mp3\<close> and no error, or error, with a non-empty
  message of at most 500 characters and the path it had. Two processed rows with the
  same path are the same row.
\<close>

lemma medium_high_when_updates_applied:
  assumes upd: "updates_applied env"
      and dist: "distinct (map prolific_pid (participants_of w))"
  shows "length (processed env w) \<le> 50
       \<and> fst (fst (processMediumHighConditions env w)) + snd (fst (processMediumHighConditions env w))
           = length (processed env w)
       \<and> fst (fst (processMediumHighConditions env w))
           = length (filter (ended_generated_in
                (participants_of (snd (processMediumHighConditions env w)))) (processed env w))
       \<and> snd (fst (processMediumHighConditions env w))
           = length (filter (ended_error_in
                (participants_of (snd (processMediumHighConditions env w)))) (processed env w))
       \<and> (\<forall>p\<in>set (processed env w).
             pending_medium_high p
             \<and> (\<exists>r'. db_single (prolific_pid p)
                        (participants_of (snd (processMediumHighConditions env w))) = Some r'
                     \<and> ended_one_way p r'))
       \<and> (\<forall>p\<in>set (processed env w). \<forall>q\<in>set (processed env w).
             prolific_pid p @ ''.mp3'' = prolific_pid q @ ''.mp3'' \<longrightarrow> p = q)"
proof (intro conjI ballI impI)
  show "length (processed env w) \<le> 50" by (rule processed_bounded)
  show "fst (fst (processMediumHighConditions env w)) + snd (fst (processMediumHighConditions env w))
           = length (processed env w)"
    by (simp add: processMediumHighConditions_eq process_all_counts)
  from processed_rows [OF dist, of env]
  have d: "distinct (map prolific_pid (processed env w))"
    and r: "\<forall>q\<in>set (processed env w). db_single (prolific_pid q) (participants_of w) = Some q"
    by simp_all
  from process_all_generated [OF upd d r, of 0 0]
  show "fst (fst (processMediumHighConditions env w))
           = length (filter (ended_generated_in
                (participants_of (snd (processMediumHighConditions env w)))) (processed env w))"
    "snd (fst (processMediumHighConditions env w))
           = length (filter (ended_error_in
                (participants_of (snd (processMediumHighConditions env w)))) (processed env w))"
    by (simp_all only: processMediumHighConditions_eq add_0)
  show "p = q" if "p \<in> set (processed env w)" "q \<in> set (processed env w)"
    "prolific_pid p @ ''.mp3'' = prolific_pid q @ ''.mp3''" for p q
    using dist that by (rule processed_unique_paths)
  show "pending_medium_high p" if "p \<in> set (processed env w)" for p
    using that by (rule processed_pending)
  show "\<exists>r'. db_single (prolific_pid p)
                        (participants_of (snd (processMediumHighConditions env w))) = Some r'
                     \<and> ended_one_way p r'" if "p \<in> set (processed env w)" for p
  proof -
    from process_all_rows [OF upd d r, of "(0, 0)"] that show ?thesis
      by (simp only: processMediumHighConditions_eq)
  qed
qed

text \<open>
  A provider that refuses the first request and answers the second, with a store that
  applies the updates: the first row ends in error with the provider's message, the
  second ends generated.
\<close>

lemma failed_row_does_not_stop_the_next:
  "updates_applied busy_then_fine
   \<and> map prolific_pid (processed busy_then_fine pending_world) = [''P2'', ''P3'']
   \<and> fst (processMediumHighConditions busy_then_fine pending_world) = (1, 1)
   \<and> map audio_status (participants_of (snd (processMediumHighConditions busy_then_fine pending_world)))
       = [Some ''error'', Some ''generated'', Some ''generated'']
   \<and> map audio_error (participants_of (snd (processMediumHighConditions busy_then_fine pending_world)))
       = [Some ''ElevenLabs API error: 429 - busy'', None, None]
   \<and> map audio_path (participants_of (snd (processMediumHighConditions busy_then_fine pending_world)))
       = [None, Some ''low.mp3'', Some ''P3.mp3'']"
proof -
  have u: "updates_applied busy_then_fine"
    by (simp add: updates_applied_def busy_then_fine_def)
  have p: "map prolific_pid (processed busy_then_fine pending_world) = [''P2'', ''P3'']"
    by (simp add: processed_def fetch_batch_def BATCH_SIZE_def pending_medium_high_def
        busy_then_fine_def pending_world_def low_row_def new_participant_def)
  have run: "fst (processMediumHighConditions busy_then_fine pending_world) = (1, 1)
   \<and> map audio_status (participants_of (snd (processMediumHighConditions busy_then_fine pending_world)))
       = [Some ''error'', Some ''generated'', Some ''generated'']
   \<and> map audio_error (participants_of (snd (processMediumHighConditions busy_then_fine pending_world)))
       = [Some ''ElevenLabs API error: 429 - busy'', None, None]
   \<and> map audio_path (participants_of (snd (processMediumHighConditions busy_then_fine pending_world)))
       = [None, Some ''low.mp3'', Some ''P3.mp3'']"
    by (simp add: processMediumHighConditions_def fetch_batch_def BATCH_SIZE_def
        pending_medium_high_def process_one_def generateAudio_def uploadAudio_def
        mark_error_def mark_generated_def message_of_def error_cols_def generated_cols_def
        busy_then_fine_def pending_world_def low_row_def new_participant_def Let_def db_update_def
        has_pid_def bucket_put_def digit_char_def)
  from u p run show ?thesis by blast
qed

text \<open>
  C5 at a table with a pending medium row and a pending high row. The provider and the
  upload answer both rows; the store answers the status update of each row with an
  error. The script reads nothing of that answer: it counts both rows as generated,
  and both rows are still pending at the end of the run, in neither of the two states
  a processed row should end in. With the updates applied the same run leaves both
  rows generated.
\<close>

theorem refused_update_counted:
  "map prolific_pid (processed updates_refused pending_world) = [''P2'', ''P3'']
   \<and> fst (processMediumHighConditions updates_refused pending_world) = (2, 0)
   \<and> map audio_status (participants_of (snd (processMediumHighConditions updates_refused pending_world)))
       = [Some ''pending'', Some ''generated'', Some ''pending'']
   \<and> map fst (bucket_of (snd (processMediumHighConditions updates_refused pending_world)))
       = [''P2.mp3'', ''P3.mp3'']
   \<and> fst (processMediumHighConditions all_fine pending_world) = (2, 0)
   \<and> map audio_status (participants_of (snd (processMediumHighConditions all_fine pending_world)))
       = [Some ''generated'', Some ''generated'', Some ''generated'']"
  by (simp add: processed_def processMediumHighConditions_def fetch_batch_def BATCH_SIZE_def
      pending_medium_high_def process_one_def generateAudio_def uploadAudio_def
      mark_error_def mark_generated_def message_of_def error_cols_def generated_cols_def
      updates_refused_def all_fine_def pending_world_def low_row_def new_participant_def Let_def
      db_update_def has_pid_def bucket_put_def)

end
